theory Spec2Isabelle
  imports Complex_Main
begin

section \<open>ECG monitor: the streaming heart-rate pipeline of gui.py\<close>

text \<open>
  The model follows \<^verbatim>\<open>gui.py\<close>. Python integers are \<open>int\<close>. The heart rate, which the
  code truncates to an integer, is computed as the code computes it, in float64: every
  division of lines 245 and 246 is rounded to the nearest double (\<open>fl64\<close>). The filtered
  signal, its mean, its standard deviation and the time axis are real-valued outputs and
  are idealised as exact reals: statements about them are statements up to rounding. The
  bytes read from the serial port are a \<open>string\<close>; the model covers ASCII input (the wire
  format), where \<^verbatim>\<open>decode('utf-8', errors='replace')\<close> is the identity.
\<close>

subsection \<open>Constants\<close>

definition SAMPLE_RATE :: nat where
  "SAMPLE_RATE = 250"

definition DISPLAY_TIME_SECONDS :: nat where
  "DISPLAY_TIME_SECONDS = 6"

definition MAX_POINTS :: nat where
  "MAX_POINTS = SAMPLE_RATE * DISPLAY_TIME_SECONDS"

definition FILTER_SIZE :: nat where
  "FILTER_SIZE = 25"

definition MIN_HEART_RATE :: int where
  "MIN_HEART_RATE = 40"

definition MAX_HEART_RATE :: int where
  "MAX_HEART_RATE = 200"

subsection \<open>Python and NumPy primitives\<close>

datatype py_error = ValueError | OverflowError

text \<open>\<^verbatim>\<open>collections.deque(maxlen=n).append(v)\<close>: append on the right, drop the leftmost when full.\<close>

definition deque_append :: "nat \<Rightarrow> 'a list \<Rightarrow> 'a \<Rightarrow> 'a list" where
  "deque_append maxlen xs v =
     (let ys = xs @ [v] in if length ys > maxlen then tl ys else ys)"

text \<open>\<^verbatim>\<open>int(x)\<close> on a finite float: truncation towards zero.\<close>

definition py_trunc :: "real \<Rightarrow> int" where
  "py_trunc x = (if 0 \<le> x then \<lfloor>x\<rfloor> else \<lceil>x\<rceil>)"

text \<open>
  IEEE 754 binary64 rounding, to nearest with ties to even: a nonzero \<open>x\<close> is scaled by the
  power of two that brings its magnitude into \<open>[2^52, 2^53)\<close>, rounded to an integer and
  scaled back. The exponent is unbounded here; doubles agree with it for magnitudes from
  \<open>2^-1022\<close> up to \<open>2^1024\<close>, far beyond any value of this program.
\<close>

definition round_half_even :: "real \<Rightarrow> int" where
  "round_half_even y =
     (let f = \<lfloor>y\<rfloor>; r = y - of_int f
      in if r < 1 / 2 then f else if 1 / 2 < r then f + 1
         else if even f then f else f + 1)"

definition fl64 :: "real \<Rightarrow> real" where
  "fl64 x =
     (if x = 0 then 0
      else let e = \<lfloor>log 2 \<bar>x\<bar>\<rfloor> - 52
           in of_int (round_half_even (x / 2 powr of_int e)) * 2 powr of_int e)"

text \<open>\<^verbatim>\<open>xs[a:b]\<close> for non-negative bounds.\<close>

definition slice :: "'a list \<Rightarrow> nat \<Rightarrow> nat \<Rightarrow> 'a list" where
  "slice xs a b = drop a (take b xs)"

text \<open>\<^verbatim>\<open>max(xs)\<close> raises ValueError on an empty sequence.\<close>

fun py_max :: "real list \<Rightarrow> py_error + real" where
  "py_max [] = Inl ValueError"
| "py_max (x # xs) = Inr (fold max xs x)"

definition np_mean :: "real list \<Rightarrow> real" where
  "np_mean xs = sum_list xs / real (length xs)"

definition np_std :: "real list \<Rightarrow> real" where
  "np_std xs = sqrt (np_mean (map (\<lambda>x. (x - np_mean xs)\<^sup>2) xs))"

text \<open>
  \<^verbatim>\<open>np.convolve(a, v, mode='same')\<close>: the operands are swapped so that the first is the
  longer one, an empty operand raises, and the result is the centre of the full
  convolution, as long as the longer operand: entry \<open>i\<close> is entry
  \<open>i + (length v - 1) div 2\<close> of the full convolution.
\<close>

definition np_convolve_same :: "real list \<Rightarrow> real list \<Rightarrow> py_error + real list" where
  "np_convolve_same a0 v0 =
     (let a = (if length v0 > length a0 then v0 else a0);
          v = (if length v0 > length a0 then a0 else v0);
          n_right = (length v - 1) div 2
      in if length a = 0 \<or> length v = 0 then Inl ValueError
         else Inr (map (\<lambda>i. \<Sum>j\<leftarrow>[0..<length v].
                               if j \<le> i + n_right \<and> i + n_right - j < length a
                               then a ! (i + n_right - j) * v ! j else 0)
                       [0..<length a]))"

text \<open>Elementwise subtraction of one-dimensional arrays, with NumPy's broadcasting rule.\<close>

definition np_subtract :: "real list \<Rightarrow> real list \<Rightarrow> py_error + real list" where
  "np_subtract x y =
     (if length x = length y then Inr (map2 (-) x y)
      else if length x = 1 then Inr (map (\<lambda>b. hd x - b) y)
      else if length y = 1 then Inr (map (\<lambda>a. a - hd y) x)
      else Inl ValueError)"

text \<open>\<^verbatim>\<open>np.linspace(start, stop, num)\<close>.\<close>

definition np_linspace :: "real \<Rightarrow> real \<Rightarrow> nat \<Rightarrow> real list" where
  "np_linspace start stop num =
     (if num = 1 then [start]
      else map (\<lambda>i. start + real i * ((stop - start) / real (num - 1))) [0..<num])"

subsection \<open>Text: \<^verbatim>\<open>str.strip\<close>, \<^verbatim>\<open>str.split('\n')\<close>, \<^verbatim>\<open>int(str)\<close>\<close>

text \<open>The ASCII characters that \<^verbatim>\<open>str.strip()\<close> removes.\<close>

definition is_space :: "char \<Rightarrow> bool" where
  "is_space c = (c \<in> set [CHR 0x09, CHR 0x0A, CHR 0x0B, CHR 0x0C, CHR 0x0D,
                           CHR 0x1C, CHR 0x1D, CHR 0x1E, CHR 0x1F, CHR 0x20])"

definition py_strip :: "string \<Rightarrow> string" where
  "py_strip s = rev (dropWhile is_space (rev (dropWhile is_space s)))"

fun split_nl :: "string \<Rightarrow> string list" where
  "split_nl [] = [[]]"
| "split_nl (c # cs) =
     (if c = CHR 0x0A then [] # split_nl cs
      else (case split_nl cs of [] \<Rightarrow> [[c]] | l # ls \<Rightarrow> (c # l) # ls))"

definition is_digit :: "char \<Rightarrow> bool" where
  "is_digit c = (c \<in> set ''0123456789'')"

definition digit_val :: "char \<Rightarrow> int" where
  "digit_val c = int (of_char c) - 48"

text \<open>
  The digits of a base-10 literal: at least one digit, single underscores allowed between
  digits only.
\<close>

fun digits_body :: "string \<Rightarrow> bool" where
  "digits_body [] = False"
| "digits_body [c] = is_digit c"
| "digits_body (c # d # cs) =
     (is_digit c \<and> (if d = CHR ''_'' then digits_body cs else digits_body (d # cs)))"

definition digits_value :: "string \<Rightarrow> int" where
  "digits_value cs = foldl (\<lambda>n c. 10 * n + digit_val c) 0 (filter is_digit cs)"

text \<open>\<^verbatim>\<open>int(s)\<close> for a string: \<open>None\<close> is ValueError.\<close>

definition py_int :: "string \<Rightarrow> int option" where
  "py_int s0 =
     (case py_strip s0 of
        [] \<Rightarrow> None
      | c # cs \<Rightarrow>
          if c = CHR ''-'' then (if digits_body cs then Some (- digits_value cs) else None)
          else if c = CHR ''+'' then (if digits_body cs then Some (digits_value cs) else None)
          else (if digits_body (c # cs) then Some (digits_value (c # cs)) else None))"

subsection \<open>Application state\<close>

datatype hr_text = NoReading | BPM int

datatype quality_text = QualityUnset | QualityGood | QualityLeadOff

datatype colour = Unstyled | Green | Blue | Red

datatype log_entry = Connecting | ConnectionError | PlotError | HeartRateError py_error

record ecg_state =
  serial_open :: bool
  timer_active :: bool
  data_buffer :: "int list"
  last_update_time :: real
  data_count :: nat
  heart_rate_history :: "int list"
  plot_curve :: "real list \<times> int list"
  hr_label :: hr_text
  hr_style :: colour
  signal_quality_label :: quality_text
  signal_quality_style :: colour
  debug_text :: "log_entry list"

text \<open>The state after \<^verbatim>\<open>__init__\<close>, before any connection attempt; \<open>t0\<close> is the clock then.\<close>

definition initial_state :: "real \<Rightarrow> ecg_state" where
  "initial_state t0 =
     \<lparr>serial_open = False, timer_active = False, data_buffer = [],
      last_update_time = t0, data_count = 0, heart_rate_history = [],
      plot_curve = ([], []), hr_label = NoReading, hr_style = Green,
      signal_quality_label = QualityUnset, signal_quality_style = Unstyled,
      debug_text = []\<rparr>"

definition log_debug :: "log_entry \<Rightarrow> ecg_state \<Rightarrow> ecg_state" where
  "log_debug m s = s\<lparr>debug_text := debug_text s @ [m]\<rparr>"

subsection \<open>\<^verbatim>\<open>toggle_connection\<close>\<close>

text \<open>
  What the serial library does is an input: opening the port may raise, and so may
  \<^verbatim>\<open>reset_input_buffer\<close> after the port was opened and stored.
\<close>

datatype connect_outcome = OpenFails | ResetFails | Opened

definition toggle_connection :: "ecg_state \<Rightarrow> connect_outcome \<Rightarrow> real \<Rightarrow> ecg_state" where
  "toggle_connection s outcome now =
     (if \<not> serial_open s then
        (let s1 = log_debug Connecting s in
         case outcome of
           OpenFails \<Rightarrow> log_debug ConnectionError s1
         | ResetFails \<Rightarrow> log_debug ConnectionError (s1\<lparr>serial_open := True\<rparr>)
         | Opened \<Rightarrow> s1\<lparr>serial_open := True, data_buffer := [], data_count := 0,
                        heart_rate_history := [], timer_active := True,
                        last_update_time := now\<rparr>)
      else s\<lparr>timer_active := False, serial_open := False\<rparr>)"

subsection \<open>\<^verbatim>\<open>update_heart_rate\<close>\<close>

definition baseline_filter :: "int list \<Rightarrow> py_error + real list" where
  "baseline_filter data =
     (case np_convolve_same (map real_of_int data)
             (replicate FILTER_SIZE (1 / real FILTER_SIZE)) of
        Inl e \<Rightarrow> Inl e
      | Inr c \<Rightarrow> np_subtract (map real_of_int data) c)"

fun scan_peaks :: "real list \<Rightarrow> real \<Rightarrow> nat list \<Rightarrow> py_error + nat list" where
  "scan_peaks fd threshold [] = Inr []"
| "scan_peaks fd threshold (i # rest) =
     (if fd ! i > threshold \<and> fd ! i > fd ! (i - 1) \<and> fd ! i > fd ! (i + 1) then
        (let window_start = nat (max 0 (int i - 15));
             window_end = min (length fd) (i + 15)
         in case py_max (slice fd window_start window_end) of
              Inl e \<Rightarrow> Inl e
            | Inr m \<Rightarrow>
                if fd ! i = m
                then (case scan_peaks fd threshold rest of
                        Inl e \<Rightarrow> Inl e
                      | Inr ps \<Rightarrow> Inr (i # ps))
                else scan_peaks fd threshold rest)
      else scan_peaks fd threshold rest)"

definition find_peaks :: "real list \<Rightarrow> py_error + nat list" where
  "find_peaks filtered_data =
     (let signal_mean = np_mean filtered_data;
          signal_std = np_std filtered_data;
          threshold = signal_mean + 1.5 * signal_std
      in scan_peaks filtered_data threshold [5..<nat (int (length filtered_data) - 5)])"

definition intervals_of :: "nat list \<Rightarrow> int list" where
  "intervals_of peaks =
     map (\<lambda>i. int (peaks ! (i + 1)) - int (peaks ! i)) [0..<length peaks - 1]"

text \<open>
  Lines 243 to 246: the rate from at least two peaks, in float64. The sum of the intervals
  is an integer and exact; \<^verbatim>\<open>np.mean\<close> divides it by the count, the result is divided by
  the sample rate, and 60 is divided by that: three rounded divisions, then \<^verbatim>\<open>int\<close>
  truncates. A zero average interval makes \<^verbatim>\<open>60 / avg_interval_sec\<close> infinite and
  \<^verbatim>\<open>int\<close> raise OverflowError.
\<close>

definition heart_rate_of :: "nat list \<Rightarrow> py_error + int" where
  "heart_rate_of peaks =
     (let intervals = intervals_of peaks;
          avg_interval_sec = fl64 (fl64 (np_mean (map real_of_int intervals)) / real SAMPLE_RATE)
      in if avg_interval_sec = 0 then Inl OverflowError
         else Inr (py_trunc (fl64 (60 / avg_interval_sec))))"

text \<open>Lines 249 to 259: an accepted rate enters the history, the label shows the history's mean.\<close>

definition accept_rate :: "int \<Rightarrow> ecg_state \<Rightarrow> ecg_state" where
  "accept_rate heart_rate s =
     (let h = deque_append 5 (heart_rate_history s) heart_rate;
          avg_hr = py_trunc (real_of_int (sum_list h) / real (length h))
      in s\<lparr>heart_rate_history := h, hr_label := BPM avg_hr,
           hr_style := (if avg_hr < 60 then Blue
                        else if avg_hr > 100 then Red else Green)\<rparr>)"

text \<open>Lines 242 to 263: from the peak list to the label; the handler logs an exception.\<close>

definition estimate :: "nat list \<Rightarrow> ecg_state \<Rightarrow> ecg_state" where
  "estimate peaks s =
     (if length peaks \<ge> 2 then
        (case heart_rate_of peaks of
           Inl e \<Rightarrow> log_debug (HeartRateError e) s
         | Inr heart_rate \<Rightarrow>
             if MIN_HEART_RATE \<le> heart_rate \<and> heart_rate \<le> MAX_HEART_RATE
             then accept_rate heart_rate s
             else s\<lparr>hr_label := NoReading\<rparr>)
      else s\<lparr>hr_label := NoReading\<rparr>)"

definition update_heart_rate :: "int list \<Rightarrow> ecg_state \<Rightarrow> ecg_state" where
  "update_heart_rate data s =
     (case baseline_filter data of
        Inl e \<Rightarrow> log_debug (HeartRateError e) s
      | Inr filtered_data \<Rightarrow>
          (case find_peaks filtered_data of
             Inl e \<Rightarrow> log_debug (HeartRateError e) s
           | Inr peaks \<Rightarrow> estimate peaks s))"

subsection \<open>\<^verbatim>\<open>update_plot\<close>\<close>

text \<open>The loop over the lines; its state is the buffer, the count of new data and the lead-off flag.\<close>

fun ingest_lines :: "string list \<Rightarrow> int list \<times> nat \<times> bool \<Rightarrow> int list \<times> nat \<times> bool" where
  "ingest_lines [] st = st"
| "ingest_lines (line0 # rest) (buf, new_data_count, lead_off_detected) =
     (let line = py_strip line0 in
      if line = [] then ingest_lines rest (buf, new_data_count, lead_off_detected)
      else (case py_int line of
              None \<Rightarrow> ingest_lines rest (buf, new_data_count, lead_off_detected)
            | Some v \<Rightarrow>
                if v = - 1 then ingest_lines rest (buf, new_data_count, True)
                else ingest_lines rest
                       (deque_append MAX_POINTS buf v, new_data_count + 1, lead_off_detected)))"

text \<open>
  What the port delivers in one tick: the bytes waiting (none waiting is the empty string),
  or a read that raises.
\<close>

datatype serial_input = Waiting string | ReadFails

definition update_plot :: "ecg_state \<Rightarrow> serial_input \<Rightarrow> real \<Rightarrow> ecg_state" where
  "update_plot s inp now =
     (if \<not> serial_open s then s
      else case inp of
        ReadFails \<Rightarrow> log_debug PlotError s
      | Waiting raw_data \<Rightarrow>
          if int (length raw_data) \<le> 0 then s
          else
            (case ingest_lines (split_nl (py_strip raw_data)) (data_buffer s, 0, False) of
               (buf, new_data_count, lead_off_detected) \<Rightarrow>
                 (let s1 = s\<lparr>data_buffer := buf,
                             signal_quality_label :=
                               (if lead_off_detected then QualityLeadOff else QualityGood),
                             signal_quality_style :=
                               (if lead_off_detected then Red else Green)\<rparr>
                  in if new_data_count > 0 then
                       (let s2 = s1\<lparr>data_count := data_count s1 + new_data_count,
                                    plot_curve :=
                                      (np_linspace 0 (real (length buf) / real SAMPLE_RATE)
                                         (length buf), buf)\<rparr>;
                            elapsed = now - last_update_time s2
                        in if elapsed \<ge> 1 then
                             (let s3 = (if \<not> lead_off_detected \<and> length buf \<ge> SAMPLE_RATE
                                        then update_heart_rate buf s2 else s2)
                              in s3\<lparr>data_count := 0, last_update_time := now\<rparr>)
                           else s2)
                     else s1)))"

subsection \<open>Runs of the application\<close>

datatype event = Toggle connect_outcome real | Tick serial_input real

text \<open>The timer calls \<^verbatim>\<open>update_plot\<close>; a stopped timer delivers no tick.\<close>

fun step :: "ecg_state \<Rightarrow> event \<Rightarrow> ecg_state" where
  "step s (Toggle outcome now) = toggle_connection s outcome now"
| "step s (Tick inp now) = (if timer_active s then update_plot s inp now else s)"

definition run :: "real \<Rightarrow> event list \<Rightarrow> ecg_state" where
  "run t0 evs = foldl step (initial_state t0) evs"

subsection \<open>The specification's vocabulary\<close>

datatype sample_event = Reading int | LeadOff

text \<open>
  The parser as the specification words it: split on newlines; a line that is empty after
  trimming or is no integer gives nothing, \<open>-1\<close> gives \<open>LeadOff\<close>, any other integer a
  \<open>Reading\<close>.
\<close>

definition spec_parse_line :: "string \<Rightarrow> sample_event option" where
  "spec_parse_line l =
     (if py_strip l = [] then None
      else case py_int (py_strip l) of
             None \<Rightarrow> None
           | Some v \<Rightarrow> if v = - 1 then Some LeadOff else Some (Reading v))"

definition spec_events :: "string \<Rightarrow> sample_event list" where
  "spec_events chunk = List.map_filter spec_parse_line (split_nl chunk)"

fun readings_of :: "sample_event list \<Rightarrow> int list" where
  "readings_of [] = []"
| "readings_of (Reading v # es) = v # readings_of es"
| "readings_of (LeadOff # es) = readings_of es"


text \<open>The vicinity of radius 15 around \<open>i\<close>, clamped to the window, as the specification words it.\<close>

definition spec_vicinity :: "real list \<Rightarrow> nat \<Rightarrow> real list" where
  "spec_vicinity fd i = slice fd (i - 15) (min (length fd) (i + 15 + 1))"

text \<open>
  The test of the scan loop at index \<open>i\<close>, with \<^verbatim>\<open>filtered_data[i] == max(window)\<close> written
  as a bound over the window \<open>[max(0, i - 15), min(len, i + 15))\<close>.
\<close>

definition is_peak :: "real list \<Rightarrow> real \<Rightarrow> nat \<Rightarrow> bool" where
  "is_peak fd threshold i =
     (fd ! i > threshold \<and> fd ! i > fd ! (i - 1) \<and> fd ! i > fd ! (i + 1) \<and>
      (\<forall>k. i - 15 \<le> k \<and> k < i + 15 \<and> k < length fd \<longrightarrow> fd ! k \<le> fd ! i))"

text \<open>
  A test input: one second of samples, flat at 0, with three one-sample beats, and the
  values the baseline filter gives on it (each beat lowers the 25 samples around it by a
  25th of its height).
\<close>

definition example_beats :: "int list" where
  "example_beats = (replicate 250 0)[50 := 100, 65 := 200, 230 := 200]"

definition example_filtered :: "nat \<Rightarrow> real" where
  "example_filtered i =
     (if i = 50 then 100 else if i = 65 then 200 else if i = 230 then 200 else 0)
     - ((if 38 \<le> i \<and> i \<le> 62 then 100 else 0) + (if 53 \<le> i \<and> i \<le> 77 then 200 else 0)
        + (if 218 \<le> i \<and> i \<le> 242 then 200 else 0)) / 25"

text \<open>The test input as the serial port delivers it: 250 lines of text.\<close>

definition example_chunk :: string where
  "example_chunk =
     concat (replicate 50 ''0\<newline>'') @ ''100\<newline>'' @ concat (replicate 14 ''0\<newline>'') @ ''200\<newline>''
     @ concat (replicate 164 ''0\<newline>'') @ ''200\<newline>'' @ concat (replicate 19 ''0\<newline>'')"

text \<open>The history holds accepted rates only, and so does the label.\<close>

definition hr_inv :: "ecg_state \<Rightarrow> bool" where
  "hr_inv s =
     ((\<forall>v \<in> set (heart_rate_history s). MIN_HEART_RATE \<le> v \<and> v \<le> MAX_HEART_RATE) \<and>
      length (heart_rate_history s) \<le> 5 \<and>
      (case hr_label s of NoReading \<Rightarrow> True
       | BPM v \<Rightarrow> MIN_HEART_RATE \<le> v \<and> v \<le> MAX_HEART_RATE))"

section \<open>Arithmetic of the estimator\<close>

lemma py_trunc_div_nonneg:
  assumes "0 \<le> a" "0 < n"
  shows "py_trunc (real_of_int a / real n) = a div int n"
proof -
  have "0 \<le> real_of_int a / real n" using assms by simp
  moreover have "\<lfloor>real_of_int a / real n\<rfloor> = a div int n"
    by (metis floor_divide_of_int_eq of_int_of_nat_eq)
  ultimately show ?thesis by (simp add: py_trunc_def)
qed

lemma deque_append_5:
  "deque_append 5 h v = (if length h < 5 then h @ [v] else tl (h @ [v]))"
  by (simp add: deque_append_def Let_def)

lemma length_deque_append:
  "length h \<le> n \<Longrightarrow> 0 < n \<Longrightarrow> length (deque_append n h v) \<le> n \<and> 0 < length (deque_append n h v)"
  by (cases h) (auto simp: deque_append_def Let_def)

lemma set_deque_append: "set (deque_append n h v) \<subseteq> insert v (set h)"
  by (cases h) (auto simp: deque_append_def Let_def)

lemma intervals_of_Cons2:
  "intervals_of (a # b # ps) = (int b - int a) # intervals_of (b # ps)"
proof -
  have "[0..<Suc (length ps)] = 0 # map Suc [0..<length ps]"
    by (simp add: upt_conv_Cons map_Suc_upt del: upt_Suc)
  then show ?thesis by (simp add: intervals_of_def del: upt_Suc)
qed

lemma intervals_of_single: "intervals_of [a] = []"
  by (simp add: intervals_of_def)

lemma sum_intervals_of:
  "ps \<noteq> [] \<Longrightarrow> sum_list (intervals_of ps) = int (last ps) - int (hd ps)"
proof (induction ps rule: induct_list012)
  case 1 then show ?case by simp
next
  case (2 x) then show ?case by (simp add: intervals_of_single)
next
  case (3 x y zs)
  then show ?case by (simp add: intervals_of_Cons2)
qed

lemma length_intervals_of: "length (intervals_of ps) = length ps - 1"
  by (simp add: intervals_of_def)

lemma mean_of_int_list: "np_mean (map real_of_int xs) = real_of_int (sum_list xs) / real (length xs)"
proof -
  have "sum_list (map real_of_int xs) = real_of_int (sum_list xs)"
    by (induction xs) auto
  then show ?thesis by (simp add: np_mean_def)
qed

lemma sorted_hd_less_last:
  "sorted_wrt (<) (ps::nat list) \<Longrightarrow> 2 \<le> length ps \<Longrightarrow> hd ps < last ps"
  by (cases ps) (auto simp: Suc_le_eq)

lemma intervals_of_zip:
  "intervals_of ps = map2 (\<lambda>a b. int b - int a) ps (tl ps)"
proof (induction ps rule: induct_list012)
  case 1 then show ?case by (simp add: intervals_of_def)
next
  case (2 x) then show ?case by (simp add: intervals_of_single)
next
  case (3 x y zs) then show ?case by (simp add: intervals_of_Cons2)
qed

subsection \<open>Rounding to float64\<close>

lemma round_half_even_error: "\<bar>of_int (round_half_even y) - y\<bar> \<le> 1 / 2"
proof -
  have "of_int \<lfloor>y\<rfloor> \<le> y" "y < of_int \<lfloor>y\<rfloor> + 1" by linarith+
  then show ?thesis by (auto simp: round_half_even_def Let_def)
qed

lemma round_half_even_of_int [simp]: "round_half_even (of_int k) = k"
  by (simp add: round_half_even_def)

lemma fl64_error: "\<bar>fl64 x - x\<bar> \<le> \<bar>x\<bar> / 2 ^ 53"
proof (cases "x = 0")
  case True
  then show ?thesis by (simp add: fl64_def)
next
  case False
  define e where "e = \<lfloor>log 2 \<bar>x\<bar>\<rfloor> - 52"
  define p :: real where "p = 2 powr of_int e"
  have p: "0 < p" by (simp add: p_def)
  have fl: "fl64 x = of_int (round_half_even (x / p)) * p"
    using False by (simp add: fl64_def e_def p_def Let_def)
  have "of_int (e + 52) \<le> log 2 \<bar>x\<bar>" by (simp add: e_def)
  then have "2 powr of_int (e + 52) \<le> \<bar>x\<bar>"
    using False by (simp add: le_log_iff)
  moreover have "(2::real) powr of_int (e + 52) = p * 2 ^ 52"
    by (simp add: p_def powr_add)
  ultimately have pb: "p * 2 ^ 52 \<le> \<bar>x\<bar>" by simp
  have "\<bar>fl64 x - x\<bar> = \<bar>of_int (round_half_even (x / p)) - x / p\<bar> * p"
  proof -
    have "fl64 x - x = (of_int (round_half_even (x / p)) - x / p) * p"
      using p by (simp add: fl field_simps)
    then show ?thesis using p by (simp add: abs_mult)
  qed
  also have "\<dots> \<le> (1 / 2) * p"
    using round_half_even_error[of "x / p"] p by (intro mult_right_mono) auto
  also have "\<dots> \<le> \<bar>x\<bar> / 2 ^ 53" using pb by simp
  finally show ?thesis .
qed

lemma fl64_pos_bounds:
  assumes "0 < x"
  shows "x * (1 - 1 / 2 ^ 53) \<le> fl64 x" and "fl64 x \<le> x * (1 + 1 / 2 ^ 53)" and "0 < fl64 x"
proof -
  have e: "\<bar>fl64 x - x\<bar> \<le> x / 2 ^ 53" using fl64_error[of x] assms by simp
  then have e2: "fl64 x - x \<le> x / 2 ^ 53" "x - fl64 x \<le> x / 2 ^ 53"
    by (auto simp only: abs_le_iff minus_diff_eq)
  have d: "x * (1 - 1 / 2 ^ 53) = x - x / 2 ^ 53" "x * (1 + 1 / 2 ^ 53) = x + x / 2 ^ 53"
    by (simp_all only: right_diff_distrib distrib_left mult_1_right times_divide_eq_right)
  show l: "x * (1 - 1 / 2 ^ 53) \<le> fl64 x" unfolding d using e2 by linarith
  show "fl64 x \<le> x * (1 + 1 / 2 ^ 53)" unfolding d using e2 by linarith
  have "0 < x * (1 - 1 / 2 ^ 53)" using assms by simp
  then show "0 < fl64 x" using l by linarith
qed

lemma fl64_eval:
  assumes "0 < x" and "2 ^ 52 \<le> x * 2 ^ k" and "x * 2 ^ k < 2 ^ 53"
  shows "fl64 x = of_int (round_half_even (x * 2 ^ k)) / 2 ^ k"
proof -
  have r: "real_of_int (52 - int k) = 52 - real k" by simp
  have pk: "(2::real) powr real k = 2 ^ k" by (simp add: powr_realpow)
  have A: "(2::real) powr of_int (52 - int k) = 2 ^ 52 / 2 ^ k"
    unfolding r powr_diff pk by simp
  have B: "(2::real) powr (of_int (52 - int k) + 1) = 2 ^ 53 / 2 ^ k"
    unfolding r powr_add powr_diff pk by simp
  have l1: "2 powr of_int (52 - int k) \<le> x"
    unfolding A using assms(2) by (simp add: pos_divide_le_eq)
  have l2: "x < 2 powr (of_int (52 - int k) + 1)"
    unfolding B using assms(3) by (simp add: pos_less_divide_eq)
  have "\<lfloor>log 2 x\<rfloor> = 52 - int k"
    using l1 l2 assms(1) by (subst floor_log_eq_powr_iff) auto
  then have e: "\<lfloor>log 2 \<bar>x\<bar>\<rfloor> - 52 = - int k" using assms by simp
  have "(2::real) powr of_int (- int k) = 1 / 2 ^ k"
    by (simp add: powr_minus powr_realpow divide_inverse)
  then show ?thesis using assms(1) unfolding fl64_def e Let_def by simp
qed

lemma rate_float_bounds:
  fixes x1 :: real
  assumes "1 \<le> x1"
  defines "h \<equiv> fl64 (60 / fl64 (fl64 x1 / 250))"
  shows "\<bar>h - 15000 / x1\<bar> < 1 / 2 ^ 33" and "0 < fl64 (fl64 x1 / 250)"
proof -
  define u :: real where "u = 1 / 2 ^ 53"
  define m where "m = fl64 x1"
  define a where "a = fl64 (m / 250)"
  define q where "q = 60 / a"
  define E where "E = 15000 / x1"
  have x: "0 < x1" using assms by simp
  have m: "x1 * (1 - u) \<le> m" "m \<le> x1 * (1 + u)" "0 < m"
    using fl64_pos_bounds[OF x] by (simp_all add: m_def u_def)
  have m250: "0 < m / 250" using m by simp
  have a: "m / 250 * (1 - u) \<le> a" "a \<le> m / 250 * (1 + u)" "0 < a"
    using fl64_pos_bounds[OF m250] by (simp_all add: a_def u_def)
  have q: "0 < q" using a by (simp add: q_def)
  have h: "q * (1 - u) \<le> h" "h \<le> q * (1 + u)"
    using fl64_pos_bounds[OF q] by (simp_all add: h_def q_def a_def m_def u_def)
  have u: "0 < 1 - u" "0 < 1 + u" by (simp_all add: u_def)
  have E: "0 < E" "E \<le> 15000" using assms by (simp_all add: E_def field_simps)
  have alo: "x1 * ((1 - u) * (1 - u)) / 250 \<le> a"
  proof -
    have s1: "x1 * ((1 - u) * (1 - u)) / 250 = x1 * (1 - u) / 250 * (1 - u)" by simp
    have "x1 * (1 - u) / 250 * (1 - u) \<le> m / 250 * (1 - u)"
      using m(1) u by (intro mult_right_mono divide_right_mono) auto
    then show ?thesis unfolding s1 using a(1) by (rule order_trans)
  qed
  have ahi: "a \<le> x1 * ((1 + u) * (1 + u)) / 250"
  proof -
    have s1: "x1 * ((1 + u) * (1 + u)) / 250 = x1 * (1 + u) / 250 * (1 + u)" by simp
    have "m / 250 * (1 + u) \<le> x1 * (1 + u) / 250 * (1 + u)"
      using m(2) u by (intro mult_right_mono divide_right_mono) auto
    then show ?thesis unfolding s1 using a(2) by (rule order_trans[rotated])
  qed
  have lo_pos: "0 < x1 * ((1 - u) * (1 - u)) / 250" using x u by simp
  have qhi: "q \<le> E / ((1 - u) * (1 - u))"
  proof -
    have "60 / a \<le> 60 / (x1 * ((1 - u) * (1 - u)) / 250)"
      using alo lo_pos by (intro divide_left_mono) (auto intro: mult_pos_pos a)
    then show ?thesis using x u by (simp add: q_def E_def field_simps)
  qed
  have qlo: "E / ((1 + u) * (1 + u)) \<le> q"
  proof -
    have "60 / (x1 * ((1 + u) * (1 + u)) / 250) \<le> 60 / a"
      using ahi a(3) by (intro divide_left_mono) (auto intro: mult_pos_pos)
    then show ?thesis using x u by (simp add: q_def E_def field_simps)
  qed
  have c1: "(1 + u) / ((1 - u) * (1 - u)) \<le> 1 + 4 * u" by (simp add: u_def)
  have c2: "1 - 4 * u \<le> (1 - u) / ((1 + u) * (1 + u))" by (simp add: u_def)
  have hhi: "h \<le> E * (1 + 4 * u)"
  proof -
    have "h \<le> E / ((1 - u) * (1 - u)) * (1 + u)"
      using h(2) qhi u by (meson mult_right_mono order_trans less_imp_le)
    also have "\<dots> = E * ((1 + u) / ((1 - u) * (1 - u)))" by simp
    also have "\<dots> \<le> E * (1 + 4 * u)" using c1 E by (intro mult_left_mono) auto
    finally show ?thesis .
  qed
  have hlo: "E * (1 - 4 * u) \<le> h"
  proof -
    have "E * (1 - 4 * u) \<le> E * ((1 - u) / ((1 + u) * (1 + u)))"
      using c2 E by (intro mult_left_mono) auto
    also have "\<dots> = E / ((1 + u) * (1 + u)) * (1 - u)" by simp
    also have "\<dots> \<le> q * (1 - u)" using qlo u by (intro mult_right_mono) auto
    also have "\<dots> \<le> h" by (rule h(1))
    finally show ?thesis .
  qed
  have "\<bar>h - E\<bar> \<le> E * (4 * u)"
    using hhi hlo by (simp add: abs_le_iff algebra_simps)
  also have "\<dots> \<le> 15000 * (4 * u)" using E by (intro mult_right_mono) (auto simp: u_def)
  also have "\<dots> < 1 / 2 ^ 33" by (simp add: u_def)
  finally show "\<bar>h - 15000 / x1\<bar> < 1 / 2 ^ 33" by (simp add: E_def)
  show "0 < fl64 (fl64 x1 / 250)" using a(3) by (simp add: a_def m_def)
qed

lemma trunc_near_quotient:
  fixes N S :: int and h :: real
  assumes "0 < S" and "S < 2 ^ 32" and "0 < N"
    and "\<bar>h - of_int N / of_int S\<bar> < 1 / 2 ^ 33"
  shows "N div S - (if S dvd N then 1 else 0) \<le> py_trunc h" and "py_trunc h \<le> N div S"
proof -
  define k where "k = N div S"
  define r where "r = N mod S"
  have N: "N = S * k + r" by (simp add: k_def r_def)
  have r: "0 \<le> r" "r < S" using assms(1) by (simp_all add: r_def)
  have S: "0 < real_of_int S" using assms(1) by simp
  have E: "real_of_int N / real_of_int S = of_int k + of_int r / of_int S"
    using S by (simp add: N field_simps)
  have invS: "1 / 2 ^ 32 < 1 / real_of_int S"
  proof -
    have "real_of_int S < 2 ^ 32" using assms(2) by (metis of_int_less_iff of_int_numeral of_int_power)
    then show ?thesis using S by (intro divide_strict_left_mono) auto
  qed
  have hb: "of_int k + of_int r / of_int S - 1 / 2 ^ 33 < h"
           "h < of_int k + of_int r / of_int S + 1 / 2 ^ 33"
  proof -
    have "\<bar>h - (of_int k + of_int r / of_int S)\<bar> < 1 / 2 ^ 33"
      using assms(4) unfolding E .
    then have b: "h - (of_int k + of_int r / of_int S) < 1 / 2 ^ 33"
                 "- (h - (of_int k + of_int r / of_int S)) < 1 / 2 ^ 33"
      unfolding abs_less_iff by blast+
    show "of_int k + of_int r / of_int S - 1 / 2 ^ 33 < h" using b(2) by linarith
    show "h < of_int k + of_int r / of_int S + 1 / 2 ^ 33" using b(1) by linarith
  qed
  have rS: "of_int r / real_of_int S \<le> 1 - 1 / of_int S"
  proof -
    have "of_int r \<le> real_of_int S - 1" using r(2) by linarith
    then have "of_int r / real_of_int S \<le> (real_of_int S - 1) / of_int S"
      using S by (intro divide_right_mono) auto
    also have "\<dots> = 1 - 1 / of_int S" using S by (simp add: field_simps)
    finally show ?thesis .
  qed
  have rS0: "0 \<le> of_int r / real_of_int S" using r(1) S by simp
  have p: "(1::real) / 2 ^ 33 < 1 / 2 ^ 32" "(1::real) / 2 ^ 33 < 1" by simp_all
  have up: "h < of_int k + 1" using hb(2) rS invS p by linarith
  have kpos: "0 \<le> k" using assms(1,3) by (simp add: k_def pos_imp_zdiv_nonneg_iff)
  have hpos: "0 \<le> h"
  proof (cases "r = 0")
    case True
    then have "k \<noteq> 0" using N assms(3) by auto
    then have "1 \<le> real_of_int k" using kpos by linarith
    moreover have "real_of_int r / real_of_int S = 0" using True by simp
    ultimately show ?thesis using hb(1) p by linarith
  next
    case False
    then have "1 \<le> real_of_int r" using r(1) by linarith
    then have "1 / real_of_int S \<le> of_int r / of_int S" using S by (intro divide_right_mono) auto
    moreover have "0 \<le> real_of_int k" using kpos by simp
    ultimately show ?thesis using hb(1) invS p by linarith
  qed
  have tr: "py_trunc h = \<lfloor>h\<rfloor>" using hpos by (simp add: py_trunc_def)
  show "py_trunc h \<le> N div S"
    unfolding tr k_def[symmetric] using up by (simp add: floor_le_iff)
  show "N div S - (if S dvd N then 1 else 0) \<le> py_trunc h"
  proof (cases "S dvd N")
    case True
    then have "r = 0" by (simp add: r_def)
    then have z: "real_of_int r / real_of_int S = 0" by simp
    have "real_of_int k - 1 \<le> h" using hb(1) p unfolding z by linarith
    then have "of_int (k - 1) \<le> h" by simp
    then show ?thesis unfolding tr k_def[symmetric] using True by (simp add: le_floor_iff)
  next
    case False
    then have "r \<noteq> 0" by (simp add: r_def dvd_eq_mod_eq_0)
    then have "1 \<le> real_of_int r" using r(1) by linarith
    then have "1 / real_of_int S \<le> of_int r / of_int S" using S by (intro divide_right_mono) auto
    then have "of_int k \<le> h" using hb(1) invS p by linarith
    then show ?thesis unfolding tr k_def[symmetric] using False by (simp add: le_floor_iff)
  qed
qed

lemma fl64_exact:
  assumes "0 < x" and "2 ^ 52 \<le> x * 2 ^ k" and "x * 2 ^ k < 2 ^ 53" and "x * 2 ^ k = of_int j"
  shows "fl64 x = x"
proof -
  have "fl64 x = of_int (round_half_even (of_int j)) / 2 ^ k"
    using fl64_eval[OF assms(1-3)] unfolding assms(4) .
  also have "\<dots> = x * 2 ^ k / 2 ^ k" unfolding assms(4) by simp
  finally show ?thesis by simp
qed

lemma fl64_small:
  "fl64 750 = 750" "fl64 3 = 3" "fl64 20 = 20" "fl64 250 = 250" "fl64 1 = 1" "fl64 60 = 60"
  "fl64 90 = 90"
proof -
  show "fl64 750 = 750" by (rule fl64_exact[where k = 43 and j = "750 * 2 ^ 43"]) simp_all
  show "fl64 3 = 3" by (rule fl64_exact[where k = 51 and j = "3 * 2 ^ 51"]) simp_all
  show "fl64 20 = 20" by (rule fl64_exact[where k = 48 and j = "20 * 2 ^ 48"]) simp_all
  show "fl64 250 = 250" by (rule fl64_exact[where k = 45 and j = "250 * 2 ^ 45"]) simp_all
  show "fl64 1 = 1" by (rule fl64_exact[where k = 52 and j = "2 ^ 52"]) simp_all
  show "fl64 60 = 60" by (rule fl64_exact[where k = 47 and j = "60 * 2 ^ 47"]) simp_all
  show "fl64 90 = 90" by (rule fl64_exact[where k = 46 and j = "90 * 2 ^ 46"]) simp_all
qed

subsection \<open>The rate in float64\<close>

lemma sorted_span:
  "sorted_wrt (<) (ps::nat list) \<Longrightarrow> ps \<noteq> [] \<Longrightarrow> hd ps + (length ps - 1) \<le> last ps"
proof (induction ps rule: induct_list012)
  case 1 then show ?case by simp
next
  case (2 x) then show ?case by simp
next
  case (3 x y zs)
  then have "y + (length (y # zs) - 1) \<le> last (y # zs)" by simp
  moreover have "x < y" using 3(3) by simp
  ultimately show ?case by simp
qed

lemma heart_rate_of_float:
  assumes "sorted_wrt (<) peaks" and "2 \<le> length peaks"
  shows "heart_rate_of peaks =
           Inr (py_trunc (fl64 (60 / fl64 (fl64 (real_of_int (int (last peaks) - int (hd peaks))
                                                  / real (length peaks - 1)) / 250))))"
    and "0 < fl64 (fl64 (real_of_int (int (last peaks) - int (hd peaks))
                         / real (length peaks - 1)) / 250)"
proof -
  let ?d = "int (last peaks) - int (hd peaks)"
  let ?n = "length peaks - 1"
  let ?x = "real_of_int ?d / real ?n"
  have ne: "peaks \<noteq> []" using assms by auto
  have n: "0 < ?n" using assms by simp
  have "int ?n \<le> ?d" using sorted_span[OF assms(1) ne] by linarith
  then have "real ?n \<le> real_of_int ?d" by (metis of_int_le_iff of_int_of_nat_eq)
  then have x: "1 \<le> ?x" using n by (simp add: le_divide_eq)
  have mean: "np_mean (map real_of_int (intervals_of peaks)) = ?x"
    by (simp add: mean_of_int_list sum_intervals_of[OF ne] length_intervals_of)
  show pos: "0 < fl64 (fl64 ?x / 250)" by (rule rate_float_bounds(2)[OF x])
  then have "fl64 (fl64 ?x / 250) \<noteq> 0" by simp
  then show "heart_rate_of peaks = Inr (py_trunc (fl64 (60 / fl64 (fl64 ?x / 250))))"
    unfolding heart_rate_of_def Let_def mean by (simp add: SAMPLE_RATE_def)
qed

lemma heart_rate_of_steps:
  assumes "sorted_wrt (<) peaks" and "2 \<le> length peaks"
    and "fl64 (real_of_int (int (last peaks) - int (hd peaks)) / real (length peaks - 1)) = m"
    and "fl64 (m / 250) = a" and "fl64 (60 / a) = h"
  shows "heart_rate_of peaks = Inr (py_trunc h)"
  using heart_rate_of_float(1)[OF assms(1,2)] unfolding assms(3) assms(4) assms(5) .

lemma heart_rate_near_exact:
  assumes "sorted_wrt (<) peaks" and "2 \<le> length peaks" and "last peaks < 2 ^ 32"
  shows "\<exists>hr. heart_rate_of peaks = Inr hr \<and>
           (15000 * (int (length peaks) - 1)) div (int (last peaks) - int (hd peaks))
             - (if (int (last peaks) - int (hd peaks)) dvd (15000 * (int (length peaks) - 1))
                then 1 else 0) \<le> hr \<and>
           hr \<le> (15000 * (int (length peaks) - 1)) div (int (last peaks) - int (hd peaks))"
proof -
  let ?d = "int (last peaks) - int (hd peaks)"
  let ?n = "length peaks - 1"
  let ?N = "15000 * (int (length peaks) - 1)"
  let ?x = "real_of_int ?d / real ?n"
  let ?h = "fl64 (60 / fl64 (fl64 ?x / 250))"
  have ne: "peaks \<noteq> []" using assms by auto
  have n: "0 < ?n" using assms by simp
  have dn: "int ?n \<le> ?d" using sorted_span[OF assms(1) ne] by linarith
  then have "real ?n \<le> real_of_int ?d" by (metis of_int_le_iff of_int_of_nat_eq)
  then have x: "1 \<le> ?x" using n by (simp add: le_divide_eq)
  have d: "0 < ?d" using dn n by linarith
  have d32: "?d < 2 ^ 32"
  proof -
    have "int (last peaks) < 2 ^ 32" using assms(3) by (metis of_nat_less_iff of_nat_numeral of_nat_power)
    then show ?thesis by linarith
  qed
  have N: "0 < ?N" using assms(2) by simp
  have q: "15000 / ?x = real_of_int ?N / real_of_int ?d"
  proof -
    have "real_of_int ?N = 15000 * real ?n" using assms(2) by simp
    then show ?thesis using d n by (simp add: field_simps)
  qed
  have b: "\<bar>?h - real_of_int ?N / real_of_int ?d\<bar> < 1 / 2 ^ 33"
    using rate_float_bounds(1)[OF x] unfolding q .
  note t = trunc_near_quotient[OF d d32 N b]
  show ?thesis
    using heart_rate_of_float(1)[OF assms(1,2)] t by blast
qed

lemma hr_10_760: "heart_rate_of [10, 760] = Inr 20"
proof -
  have "heart_rate_of [10, 760] = Inr (py_trunc 20)"
    by (rule heart_rate_of_steps[where m = 750 and a = 3]) (simp_all add: fl64_small)
  then show ?thesis by (simp add: py_trunc_def)
qed

lemma hr_10_260: "heart_rate_of [10, 260] = Inr 60"
proof -
  have "heart_rate_of [10, 260] = Inr (py_trunc 60)"
    by (rule heart_rate_of_steps[where m = 250 and a = 1]) (simp_all add: fl64_small)
  then show ?thesis by (simp add: py_trunc_def)
qed

lemma hr_0_250_500: "heart_rate_of [0, 250, 500] = Inr 60"
proof -
  have "heart_rate_of [0, 250, 500] = Inr (py_trunc 60)"
    by (rule heart_rate_of_steps[where m = 250 and a = 1]) (simp_all add: fl64_small)
  then show ?thesis by (simp add: py_trunc_def)
qed

lemma hr_10_70: "heart_rate_of [10, 70] = Inr 250"
proof -
  have s1: "fl64 (real_of_int (int (last [10, 70]) - int (hd [10, 70])) / real (length [10, 70::nat] - 1)) = 60"
    by (simp add: fl64_small)
  have s2: "fl64 (60 / 250) = 8646911284551352 / 2 ^ 55"
    using fl64_eval[of "60 / 250" 55] by (simp add: round_half_even_def Let_def)
  have s3: "fl64 (60 / (8646911284551352 / 2 ^ 55)) = 250"
    using fl64_eval[of "60 / (8646911284551352 / 2 ^ 55)" 45]
    by (simp add: round_half_even_def Let_def)
  have "heart_rate_of [10, 70] = Inr (py_trunc 250)"
    by (rule heart_rate_of_steps[OF _ _ s1 s2 s3]) simp_all
  then show ?thesis by (simp add: py_trunc_def)
qed

section \<open>The heart-rate estimator\<close>

text \<open>
  C6, as the code has it. For a strictly ascending peak list with at least two entries
  (indices below \<open>2^32\<close>) the computed rate is the truncation of 60 divided by the mean of
  the consecutive index differences in seconds, evaluated in float64 with each of the three
  divisions rounded. It is the exact truncated quotient \<open>15000 * (n - 1) div (last - first)\<close>
  whenever \<open>last - first\<close> does not divide \<open>15000 * (n - 1)\<close>, and that quotient or one less
  when it does. Peaks \<open>[0, 250, 500]\<close> give 60, which is accepted, and with an empty history
  60 is the value shown.
\<close>

theorem heart_rate_from_intervals:
  assumes "sorted_wrt (<) peaks" and "2 \<le> length peaks" and "last peaks < 2 ^ 32"
  shows "intervals_of peaks = map2 (\<lambda>a b. int b - int a) peaks (tl peaks) \<and>
         heart_rate_of peaks =
           Inr (py_trunc (fl64 (60 / fl64 (fl64 (real_of_int (sum_list (intervals_of peaks))
                                   / real (length (intervals_of peaks))) / real SAMPLE_RATE)))) \<and>
         (\<exists>hr. heart_rate_of peaks = Inr hr \<and>
            (15000 * (int (length peaks) - 1)) div (int (last peaks) - int (hd peaks))
              - (if (int (last peaks) - int (hd peaks)) dvd (15000 * (int (length peaks) - 1))
                 then 1 else 0) \<le> hr \<and>
            hr \<le> (15000 * (int (length peaks) - 1)) div (int (last peaks) - int (hd peaks))) \<and>
         heart_rate_of [0, 250, 500] = Inr 60 \<and>
         estimate [0, 250, 500] s = accept_rate 60 s \<and>
         hr_label (estimate [0, 250, 500] (s\<lparr>heart_rate_history := []\<rparr>)) = BPM 60"
proof -
  have ne: "peaks \<noteq> []" using assms by auto
  have f: "heart_rate_of peaks =
           Inr (py_trunc (fl64 (60 / fl64 (fl64 (real_of_int (sum_list (intervals_of peaks))
                                   / real (length (intervals_of peaks))) / real SAMPLE_RATE))))"
    using heart_rate_of_float(1)[OF assms(1,2)]
    by (simp add: sum_intervals_of[OF ne] length_intervals_of SAMPLE_RATE_def)
  have est: "estimate [0, 250, 500] t = accept_rate 60 t" for t
    by (simp add: estimate_def hr_0_250_500 MIN_HEART_RATE_def MAX_HEART_RATE_def)
  have lab: "hr_label (estimate [0, 250, 500] (s\<lparr>heart_rate_history := []\<rparr>)) = BPM 60"
    unfolding est by (simp add: accept_rate_def deque_append_def py_trunc_def)
  show ?thesis
    by (intro conjI) (rule intervals_of_zip, rule f, rule heart_rate_near_exact[OF assms],
                      rule hr_0_250_500, rule est, rule lab)
qed

theorem heart_rate_from_intervals_witness:
  "sorted_wrt (<) [10, 160, 300::nat] \<and> 2 \<le> length [10, 160, 300::nat] \<and>
   last [10, 160, 300::nat] < 2 ^ 32 \<and>
   intervals_of [10, 160, 300] = [150, 140] \<and>
   heart_rate_of [10, 160, 300] = Inr 103"
proof -
  have a: "sorted_wrt (<) [10, 160, 300::nat]" by simp
  have b: "2 \<le> length [10, 160, 300::nat]" by simp
  have c: "last [10, 160, 300::nat] < 2 ^ 32" by simp
  note t = heart_rate_from_intervals[OF a b c, of "initial_state 0"]
  have i: "intervals_of [10, 160, 300] = [150, 140]"
    using t[THEN conjunct1] by simp
  obtain hr where hr: "heart_rate_of [10, 160, 300] = Inr hr"
    "(15000 * (int (length [10, 160, 300::nat]) - 1)) div (int (last [10, 160, 300]) - int (hd [10, 160, 300]))
       - (if (int (last [10, 160, 300]) - int (hd [10, 160, 300::nat]))
               dvd (15000 * (int (length [10, 160, 300::nat]) - 1)) then 1 else 0) \<le> hr"
    "hr \<le> (15000 * (int (length [10, 160, 300::nat]) - 1)) div (int (last [10, 160, 300]) - int (hd [10, 160, 300]))"
    using t[THEN conjunct2, THEN conjunct2, THEN conjunct1] by blast
  have "103 \<le> hr" using hr(2) by simp
  moreover have "hr \<le> 103" using hr(3) by simp
  ultimately have h: "heart_rate_of [10, 160, 300] = Inr 103" using hr(1) by simp
  show ?thesis using a c i h by simp
qed

text \<open>
  Eleven beats 50 samples apart and a twelfth 250 samples later: the mean interval is
  \<open>750 / 11\<close> samples and the exact quotient is 220, but the three rounded divisions give
  a double just below 220, which truncates to 219.
\<close>

theorem float_rate_counterexample:
  "heart_rate_of [5, 55, 105, 155, 205, 255, 305, 355, 405, 455, 505, 755] = Inr 219 \<and>
   py_trunc (60 / (real_of_int (sum_list (intervals_of
                      [5, 55, 105, 155, 205, 255, 305, 355, 405, 455, 505, 755]))
                   / real (length (intervals_of
                      [5, 55, 105, 155, 205, 255, 305, 355, 405, 455, 505, 755]))
                   / real SAMPLE_RATE)) = 220"
proof -
  let ?ps = "[5, 55, 105, 155, 205, 255, 305, 355, 405, 455, 505, 755::nat]"
  have s1: "fl64 (real_of_int (int (last ?ps) - int (hd ?ps)) / real (length ?ps - 1))
            = 4797868921204364 / 2 ^ 46"
    using fl64_eval[of "750 / 11" 46] by (simp add: round_half_even_def Let_def)
  have s2: "fl64 (4797868921204364 / 2 ^ 46 / 250) = 4913017775313269 / 2 ^ 54"
    using fl64_eval[of "4797868921204364 / 2 ^ 46 / 250" 54]
    by (simp add: round_half_even_def Let_def)
  have s3: "fl64 (60 / (4913017775313269 / 2 ^ 54)) = 7740561859543039 / 2 ^ 45"
    using fl64_eval[of "60 / (4913017775313269 / 2 ^ 54)" 45]
    by (simp add: round_half_even_def Let_def)
  have "heart_rate_of ?ps = Inr (py_trunc (7740561859543039 / 2 ^ 45))"
    by (rule heart_rate_of_steps[OF _ _ s1 s2 s3]) simp_all
  then have a: "heart_rate_of ?ps = Inr 219" by (simp add: py_trunc_def)
  have "sum_list (intervals_of ?ps) = 750" by (simp add: sum_intervals_of)
  moreover have "length (intervals_of ?ps) = 11" by (simp add: length_intervals_of)
  ultimately have b: "py_trunc (60 / (real_of_int (sum_list (intervals_of ?ps))
                   / real (length (intervals_of ?ps)) / real SAMPLE_RATE)) = 220"
    by (simp add: SAMPLE_RATE_def py_trunc_def)
  show ?thesis using a b by simp
qed

text \<open>
  C7. With fewer than two peaks, or a computed rate outside 40 to 200, the label shows no
  reading and nothing else of the state changes: the history is as it was.
\<close>

theorem rejected_rate_unavailable:
  assumes "length peaks < 2 \<or>
           (\<exists>hr. heart_rate_of peaks = Inr hr \<and> (hr < MIN_HEART_RATE \<or> MAX_HEART_RATE < hr))"
  shows "estimate peaks s = s\<lparr>hr_label := NoReading\<rparr> \<and>
         hr_label (estimate peaks s) = NoReading \<and>
         heart_rate_history (estimate peaks s) = heart_rate_history s \<and>
         (\<forall>data fd. baseline_filter data = Inr fd \<and> find_peaks fd = Inr peaks \<longrightarrow>
             update_heart_rate data s = s\<lparr>hr_label := NoReading\<rparr>)"
proof -
  have e: "estimate peaks s = s\<lparr>hr_label := NoReading\<rparr>"
    using assms by (auto simp: estimate_def)
  then show ?thesis by (auto simp: update_heart_rate_def)
qed

theorem rejected_rate_unavailable_witness:
  "heart_rate_of [10, 760] = Inr 20 \<and> heart_rate_of [10, 70] = Inr 250 \<and>
   estimate [10, 760] (accept_rate 60 (initial_state 0)) =
     (accept_rate 60 (initial_state 0))\<lparr>hr_label := NoReading\<rparr> \<and>
   heart_rate_history (estimate [10, 70] (accept_rate 60 (initial_state 0))) = [60] \<and>
   heart_rate_history (estimate [10] (accept_rate 60 (initial_state 0))) = [60]"
proof -
  have h20: "heart_rate_of [10, 760] = Inr 20" by (rule hr_10_760)
  have h250: "heart_rate_of [10, 70] = Inr 250" by (rule hr_10_70)
  have p1: "length [10, 760::nat] < 2 \<or>
     (\<exists>hr. heart_rate_of [10, 760] = Inr hr \<and> (hr < MIN_HEART_RATE \<or> MAX_HEART_RATE < hr))"
    by (simp add: h20 MIN_HEART_RATE_def)
  have p2: "length [10, 70::nat] < 2 \<or>
     (\<exists>hr. heart_rate_of [10, 70] = Inr hr \<and> (hr < MIN_HEART_RATE \<or> MAX_HEART_RATE < hr))"
    by (simp add: h250 MAX_HEART_RATE_def)
  have p3: "length [10::nat] < 2 \<or>
     (\<exists>hr. heart_rate_of [10] = Inr hr \<and> (hr < MIN_HEART_RATE \<or> MAX_HEART_RATE < hr))"
    by simp
  have h: "heart_rate_history (accept_rate 60 (initial_state 0)) = [60]"
    by (simp add: accept_rate_def deque_append_def initial_state_def Let_def)
  show ?thesis
    using rejected_rate_unavailable[OF p1, of "accept_rate 60 (initial_state 0)"]
      rejected_rate_unavailable[OF p2, of "accept_rate 60 (initial_state 0)"]
      rejected_rate_unavailable[OF p3, of "accept_rate 60 (initial_state 0)"]
      h20 h250 h by simp
qed

lemma accept_rate_history:
  "heart_rate_history (accept_rate hr s) = deque_append 5 (heart_rate_history s) hr"
  by (simp add: accept_rate_def Let_def)

lemma accept_rate_label:
  "hr_label (accept_rate hr s) =
     BPM (py_trunc (real_of_int (sum_list (deque_append 5 (heart_rate_history s) hr))
                    / real (length (deque_append 5 (heart_rate_history s) hr))))"
  by (simp add: accept_rate_def Let_def)

lemma sum_list_bounds:
  fixes xs :: "int list"
  assumes "\<forall>v \<in> set xs. a \<le> v \<and> v \<le> b"
  shows "a * int (length xs) \<le> sum_list xs \<and> sum_list xs \<le> b * int (length xs)"
  using assms by (induction xs) (auto simp: algebra_simps)

lemma int_mean_bounds:
  fixes xs :: "int list"
  assumes "\<forall>v \<in> set xs. a \<le> v \<and> v \<le> b" and "xs \<noteq> []"
  shows "a \<le> sum_list xs div int (length xs) \<and> sum_list xs div int (length xs) \<le> b"
proof -
  let ?n = "int (length xs)"
  have n: "0 < ?n" using assms(2) by simp
  have b: "a * ?n \<le> sum_list xs" "sum_list xs \<le> b * ?n"
    using sum_list_bounds[OF assms(1)] by auto
  have "a * ?n div ?n \<le> sum_list xs div ?n" using b(1) n by (rule zdiv_mono1)
  moreover have "sum_list xs div ?n \<le> b * ?n div ?n" using b(2) n by (rule zdiv_mono1)
  ultimately show ?thesis using n by simp
qed

lemma hr_inv_accept:
  assumes "hr_inv s" "MIN_HEART_RATE \<le> hr" "hr \<le> MAX_HEART_RATE"
  shows "hr_inv (accept_rate hr s)"
proof -
  let ?h = "deque_append 5 (heart_rate_history s) hr"
  have len: "length ?h \<le> 5 \<and> 0 < length ?h"
    using assms(1) by (intro length_deque_append) (auto simp: hr_inv_def)
  have mem: "\<forall>v \<in> set ?h. MIN_HEART_RATE \<le> v \<and> v \<le> MAX_HEART_RATE"
    using assms set_deque_append[of 5 "heart_rate_history s" hr] by (auto simp: hr_inv_def)
  have ne: "?h \<noteq> []" using len by auto
  have nonneg: "0 \<le> sum_list ?h"
    using sum_list_bounds[OF mem] by (simp add: MIN_HEART_RATE_def)
  have tr: "py_trunc (real_of_int (sum_list ?h) / real (length ?h)) = sum_list ?h div int (length ?h)"
    using nonneg len by (intro py_trunc_div_nonneg) auto
  show ?thesis
    using len mem int_mean_bounds[OF mem ne]
    by (simp add: hr_inv_def accept_rate_history accept_rate_label tr)
qed

lemma hr_inv_log_debug [simp]: "hr_inv (log_debug m s) = hr_inv s"
  by (simp add: hr_inv_def log_debug_def)

lemma hr_inv_estimate: "hr_inv s \<Longrightarrow> hr_inv (estimate peaks s)"
  by (auto simp: estimate_def hr_inv_accept split: sum.splits) (auto simp: hr_inv_def)

lemma hr_inv_update_heart_rate: "hr_inv s \<Longrightarrow> hr_inv (update_heart_rate data s)"
  by (auto simp: update_heart_rate_def hr_inv_estimate split: sum.splits)

lemma hr_inv_other_fields:
  "hr_inv (s\<lparr>data_buffer := a\<rparr>) = hr_inv s"
  "hr_inv (s\<lparr>signal_quality_label := b\<rparr>) = hr_inv s"
  "hr_inv (s\<lparr>signal_quality_style := c\<rparr>) = hr_inv s"
  "hr_inv (s\<lparr>data_count := d\<rparr>) = hr_inv s"
  "hr_inv (s\<lparr>plot_curve := e\<rparr>) = hr_inv s"
  "hr_inv (s\<lparr>last_update_time := f\<rparr>) = hr_inv s"
  "hr_inv (s\<lparr>serial_open := g\<rparr>) = hr_inv s"
  "hr_inv (s\<lparr>timer_active := h\<rparr>) = hr_inv s"
  by (simp_all add: hr_inv_def)

lemma hr_inv_update_plot: "hr_inv s \<Longrightarrow> hr_inv (update_plot s inp now)"
  by (auto simp: update_plot_def Let_def hr_inv_other_fields hr_inv_update_heart_rate
           split: serial_input.splits prod.splits)

lemma hr_inv_toggle: "hr_inv s \<Longrightarrow> hr_inv (toggle_connection s outcome now)"
  by (cases outcome) (auto simp: toggle_connection_def Let_def hr_inv_other_fields,
                      auto simp: hr_inv_def log_debug_def)

lemma hr_inv_step: "hr_inv s \<Longrightarrow> hr_inv (step s e)"
  by (cases e) (auto simp: hr_inv_update_plot hr_inv_toggle)

lemma hr_inv_foldl: "hr_inv s \<Longrightarrow> hr_inv (foldl step s evs)"
  by (induction evs arbitrary: s) (auto simp: hr_inv_step)

lemma hr_inv_initial: "hr_inv (initial_state t0)"
  by (simp add: hr_inv_def initial_state_def)

lemma hr_inv_run: "hr_inv (run t0 evs)"
  unfolding run_def by (rule hr_inv_foldl[OF hr_inv_initial])

text \<open>
  C8. An accepted rate is appended to the history, whose oldest entry is dropped when five
  are held, and the label shows the integer mean of the history after the append. After the
  accepted rates 60, 62, 58, 64, 66 the label shows 62; a sixth accepted rate evicts the 60.
\<close>

theorem accepted_rate_smoothed:
  assumes "2 \<le> length peaks" and "heart_rate_of peaks = Inr hr"
    and "MIN_HEART_RATE \<le> hr" and "hr \<le> MAX_HEART_RATE" and "hr_inv s"
  shows "heart_rate_history (estimate peaks s) =
           (if length (heart_rate_history s) < 5 then heart_rate_history s @ [hr]
            else tl (heart_rate_history s) @ [hr]) \<and>
         length (heart_rate_history (estimate peaks s)) \<le> 5 \<and>
         hr_label (estimate peaks s) =
           BPM (sum_list (heart_rate_history (estimate peaks s))
                div int (length (heart_rate_history (estimate peaks s)))) \<and>
         hr_label (fold accept_rate [60, 62, 58, 64, 66] (initial_state t0)) = BPM 62 \<and>
         heart_rate_history (fold accept_rate [60, 62, 58, 64, 66] (initial_state t0))
           = [60, 62, 58, 64, 66] \<and>
         heart_rate_history (fold accept_rate [60, 62, 58, 64, 66, 70] (initial_state t0))
           = [62, 58, 64, 66, 70]"
proof -
  let ?h = "deque_append 5 (heart_rate_history s) hr"
  have est: "estimate peaks s = accept_rate hr s"
    using assms by (simp add: estimate_def)
  have len: "length ?h \<le> 5 \<and> 0 < length ?h"
    using assms(5) by (intro length_deque_append) (auto simp: hr_inv_def)
  have mem: "\<forall>v \<in> set ?h. MIN_HEART_RATE \<le> v \<and> v \<le> MAX_HEART_RATE"
    using assms set_deque_append[of 5 "heart_rate_history s" hr] by (auto simp: hr_inv_def)
  have nonneg: "0 \<le> sum_list ?h"
    using sum_list_bounds[OF mem] by (simp add: MIN_HEART_RATE_def)
  have tr: "py_trunc (real_of_int (sum_list ?h) / real (length ?h)) = sum_list ?h div int (length ?h)"
    using nonneg len by (intro py_trunc_div_nonneg) auto
  have shape: "?h = (if length (heart_rate_history s) < 5 then heart_rate_history s @ [hr]
                     else tl (heart_rate_history s) @ [hr])"
    using assms(5) by (cases "heart_rate_history s") (auto simp: deque_append_5 hr_inv_def)
  have c1: "heart_rate_history (fold accept_rate [60, 62, 58, 64, 66] (initial_state t0))
              = [60, 62, 58, 64, 66]"
    by (simp add: accept_rate_history deque_append_5 initial_state_def)
  have c2: "hr_label (fold accept_rate [60, 62, 58, 64, 66] (initial_state t0)) = BPM 62"
    by (simp add: accept_rate_history accept_rate_label deque_append_5 initial_state_def
                  py_trunc_def)
  have c3: "heart_rate_history (fold accept_rate [60, 62, 58, 64, 66, 70] (initial_state t0))
              = [62, 58, 64, 66, 70]"
    by (simp add: accept_rate_history deque_append_5 initial_state_def)
  have A: "heart_rate_history (estimate peaks s) = ?h"
    by (simp add: est accept_rate_history)
  have B: "hr_label (estimate peaks s) = BPM (sum_list ?h div int (length ?h))"
    by (simp add: est accept_rate_label tr)
  show ?thesis
    unfolding A B
    by (intro conjI) (rule shape, rule len[THEN conjunct1], rule refl, rule c2, rule c1, rule c3)
qed

theorem accepted_rate_smoothed_witness:
  "heart_rate_of [10, 260] = Inr 60 \<and>
   hr_inv (fold accept_rate [60, 62, 58, 64, 66] (initial_state 0)) \<and>
   heart_rate_history (estimate [10, 260] (fold accept_rate [60, 62, 58, 64, 66] (initial_state 0)))
     = [62, 58, 64, 66, 60] \<and>
   hr_label (estimate [10, 260] (fold accept_rate [60, 62, 58, 64, 66] (initial_state 0)))
     = BPM 62"
proof -
  let ?s = "fold accept_rate [60, 62, 58, 64, 66] (initial_state 0)"
  have p1: "2 \<le> length [10, 260::nat]" by simp
  have p2: "heart_rate_of [10, 260] = Inr 60" by (rule hr_10_260)
  have p3: "MIN_HEART_RATE \<le> 60" by (simp add: MIN_HEART_RATE_def)
  have p4: "60 \<le> MAX_HEART_RATE" by (simp add: MAX_HEART_RATE_def)
  have h: "heart_rate_history ?s = [60, 62, 58, 64, 66]"
    by (simp add: accept_rate_history deque_append_5 initial_state_def)
  have l: "hr_label ?s = BPM 62"
    by (simp add: accept_rate_history accept_rate_label deque_append_5 initial_state_def
                  py_trunc_def)
  have p5: "hr_inv ?s"
    unfolding hr_inv_def h l by (simp add: MIN_HEART_RATE_def MAX_HEART_RATE_def)
  note t = accepted_rate_smoothed[OF p1 p2 p3 p4 p5, of 0]
  have a: "heart_rate_history (estimate [10, 260] ?s) = [62, 58, 64, 66, 60]"
    using t[THEN conjunct1] unfolding h by simp
  have b: "hr_label (estimate [10, 260] ?s) = BPM 62"
    using t[THEN conjunct2, THEN conjunct2, THEN conjunct1] unfolding a by simp
  show ?thesis using p2 p5 a b by simp
qed

section \<open>The parser and the ingestion loop\<close>

lemma split_nl_nonempty [simp]: "split_nl s \<noteq> []"
  by (induction s) (auto split: list.splits)

lemma split_nl_Cons_other:
  "c \<noteq> CHR 0x0A \<Longrightarrow> split_nl (c # cs) = (c # hd (split_nl cs)) # tl (split_nl cs)"
  by (cases "split_nl cs") auto

lemma split_nl_append_nl:
  "split_nl (a @ CHR 0x0A # b) = split_nl a @ split_nl b"
proof (induction a)
  case Nil
  then show ?case by simp
next
  case (Cons c a)
  show ?case
  proof (cases "c = CHR 0x0A")
    case True
    then show ?thesis using Cons by simp
  next
    case False
    obtain l ls where l: "split_nl a = l # ls" by (cases "split_nl a") auto
    show ?thesis using False Cons l by simp
  qed
qed

lemma split_nl_snoc:
  "split_nl (s @ [c]) =
     (if c = CHR 0x0A then split_nl s @ [[]]
      else butlast (split_nl s) @ [last (split_nl s) @ [c]])"
proof (induction s)
  case Nil
  then show ?case by simp
next
  case (Cons d s)
  obtain l ls where l: "split_nl s = l # ls" by (cases "split_nl s") auto
  obtain l' ls' where l': "split_nl (s @ [c]) = l' # ls'" by (cases "split_nl (s @ [c])") auto
  show ?case
    using Cons l l' by (cases ls) (auto split: if_splits)
qed

lemma py_strip_Nil [simp]: "py_strip [] = []"
  by (simp add: py_strip_def)

lemma py_strip_space_Cons: "is_space c \<Longrightarrow> py_strip (c # l) = py_strip l"
  by (simp add: py_strip_def)

lemma py_strip_space_snoc: "is_space c \<Longrightarrow> py_strip (l @ [c]) = py_strip l"
proof (cases "\<forall>x \<in> set l. is_space x")
  case True
  assume c: "is_space c"
  have a: "dropWhile is_space l = []"
    unfolding dropWhile_eq_Nil_conv using True by simp
  have b: "dropWhile is_space (l @ [c]) = []"
    unfolding dropWhile_eq_Nil_conv using True c by simp
  show ?thesis unfolding py_strip_def a b by simp
next
  case False
  assume c: "is_space c"
  from False have "dropWhile is_space (l @ [c]) = dropWhile is_space l @ [c]"
    by (auto simp: dropWhile_append1)
  then show ?thesis using c by (simp add: py_strip_def)
qed

lemma spec_parse_line_Nil [simp]: "spec_parse_line [] = None"
  by (simp add: spec_parse_line_def)

lemma spec_parse_line_space_Cons: "is_space c \<Longrightarrow> spec_parse_line (c # l) = spec_parse_line l"
  by (simp add: spec_parse_line_def py_strip_space_Cons)

lemma spec_parse_line_space_snoc: "is_space c \<Longrightarrow> spec_parse_line (l @ [c]) = spec_parse_line l"
  by (simp add: spec_parse_line_def py_strip_space_snoc)

lemma is_space_nl [simp]: "is_space (CHR 0x0A)"
  by (simp add: is_space_def)

lemma events_space_Cons:
  assumes "is_space c"
  shows "List.map_filter spec_parse_line (split_nl (c # cs)) =
         List.map_filter spec_parse_line (split_nl cs)"
proof (cases "c = CHR 0x0A")
  case True
  then show ?thesis by simp
next
  case False
  obtain l ls where l: "split_nl cs = l # ls" by (cases "split_nl cs") auto
  show ?thesis
    using False l assms by (simp add: spec_parse_line_space_Cons)
qed

lemma map_filter_append: "List.map_filter f (xs @ ys) = List.map_filter f xs @ List.map_filter f ys"
  by (simp add: List.map_filter_def)

lemma events_space_snoc:
  assumes "is_space c"
  shows "List.map_filter spec_parse_line (split_nl (s @ [c])) =
         List.map_filter spec_parse_line (split_nl s)"
proof (cases "c = CHR 0x0A")
  case True
  then show ?thesis by (simp add: split_nl_snoc map_filter_append)
next
  case False
  have "split_nl s = butlast (split_nl s) @ [last (split_nl s)]" by simp
  then have "List.map_filter spec_parse_line (split_nl s) =
        List.map_filter spec_parse_line (butlast (split_nl s)) @
        List.map_filter spec_parse_line [last (split_nl s)]"
    by (metis map_filter_append)
  then show ?thesis
    using False assms
    by (simp add: split_nl_snoc map_filter_append spec_parse_line_space_snoc)
qed

lemma events_dropWhile:
  "List.map_filter spec_parse_line (split_nl (dropWhile is_space s)) =
   List.map_filter spec_parse_line (split_nl s)"
  by (induction s) (auto simp: events_space_Cons simp del: split_nl.simps)

lemma events_drop_trailing:
  "List.map_filter spec_parse_line (split_nl (rev (dropWhile is_space (rev s)))) =
   List.map_filter spec_parse_line (split_nl s)"
  by (induction s rule: rev_induct) (auto simp: events_space_snoc simp del: split_nl.simps)

lemma events_strip: "spec_events (py_strip chunk) = spec_events chunk"
  unfolding spec_events_def py_strip_def
  by (simp only: events_drop_trailing events_dropWhile)

lemma ingest_lines_events:
  "ingest_lines ls (buf, n, lo) =
     (fold (\<lambda>v b. deque_append MAX_POINTS b v)
           (readings_of (List.map_filter spec_parse_line ls)) buf,
      n + length (readings_of (List.map_filter spec_parse_line ls)),
      lo \<or> LeadOff \<in> set (List.map_filter spec_parse_line ls))"
proof (induction ls arbitrary: buf n lo)
  case Nil
  then show ?case by simp
next
  case (Cons l ls)
  show ?case
    by (auto simp: Cons spec_parse_line_def Let_def split: option.splits)
qed

lemma ingest_chunk:
  "ingest_lines (split_nl (py_strip chunk)) (buf, n, lo) =
     (fold (\<lambda>v b. deque_append MAX_POINTS b v) (readings_of (spec_events chunk)) buf,
      n + length (readings_of (spec_events chunk)),
      lo \<or> LeadOff \<in> set (spec_events chunk))"
  using events_strip[of chunk] by (simp add: ingest_lines_events spec_events_def)

lemma spec_events_nl: "spec_events (a @ CHR 0x0A # b) = spec_events a @ spec_events b"
  by (simp add: spec_events_def split_nl_append_nl map_filter_append)

lemma ex_chunk: "spec_events ''-1\<newline>123\<newline>abc\<newline>\<newline>45\<newline>'' = [LeadOff, Reading 123, Reading 45]"
  by (simp add: spec_events_def spec_parse_line_def py_strip_def is_space_def
       py_int_def is_digit_def digit_val_def digits_value_def)

text \<open>
  C9. The chunk \<^verbatim>\<open>-1\n123\nabc\n\n45\n\<close> gives the events LeadOff, Reading 123, Reading 45 in
  this order. For every chunk the loop of \<^verbatim>\<open>update_plot\<close> does what the event sequence says:
  the readings are appended to the buffer in order and counted, and the lead-off flag is set
  exactly when a LeadOff event occurs. A line gives LeadOff when it parses to \<open>-1\<close>, a Reading
  when it parses to another integer, and nothing when it is empty after trimming or no
  integer; the events of a line do not depend on the lines around it.
\<close>

theorem parser_refines_events:
  "spec_events ''-1\<newline>123\<newline>abc\<newline>\<newline>45\<newline>'' = [LeadOff, Reading 123, Reading 45] \<and>
   ingest_lines (split_nl (py_strip ''-1\<newline>123\<newline>abc\<newline>\<newline>45\<newline>'')) ([], 0, False)
     = ([123, 45], 2, True) \<and>
   ingest_lines (split_nl (py_strip chunk)) (buf, n, lo) =
     (fold (\<lambda>v b. deque_append MAX_POINTS b v) (readings_of (spec_events chunk)) buf,
      n + length (readings_of (spec_events chunk)),
      lo \<or> LeadOff \<in> set (spec_events chunk)) \<and>
   (spec_parse_line l = Some LeadOff) = (py_strip l \<noteq> [] \<and> py_int (py_strip l) = Some (- 1)) \<and>
   (spec_parse_line l = Some (Reading v)) =
     (py_strip l \<noteq> [] \<and> py_int (py_strip l) = Some v \<and> v \<noteq> - 1) \<and>
   (spec_parse_line l = None) = (py_strip l = [] \<or> py_int (py_strip l) = None) \<and>
   spec_events (a @ CHR 0x0A # b) = spec_events a @ spec_events b"
proof -
  have c: "ingest_lines (split_nl (py_strip ''-1\<newline>123\<newline>abc\<newline>\<newline>45\<newline>'')) ([], 0, False)
     = ([123, 45], 2, True)"
    by (simp add: ingest_chunk ex_chunk deque_append_def MAX_POINTS_def SAMPLE_RATE_def
                  DISPLAY_TIME_SECONDS_def)
  have p1: "(spec_parse_line l = Some LeadOff) = (py_strip l \<noteq> [] \<and> py_int (py_strip l) = Some (- 1))"
    by (auto simp: spec_parse_line_def split: option.splits)
  have p2: "(spec_parse_line l = Some (Reading v)) =
     (py_strip l \<noteq> [] \<and> py_int (py_strip l) = Some v \<and> v \<noteq> - 1)"
    by (auto simp: spec_parse_line_def split: option.splits)
  have p3: "(spec_parse_line l = None) = (py_strip l = [] \<or> py_int (py_strip l) = None)"
    by (auto simp: spec_parse_line_def split: option.splits)
  show ?thesis
    by (intro conjI) (rule ex_chunk, rule c, rule ingest_chunk, rule p1, rule p2, rule p3,
                      rule spec_events_nl)
qed

section \<open>One tick of \<^verbatim>\<open>update_plot\<close>\<close>

lemma update_heart_rate_frame:
  "data_buffer (update_heart_rate d s) = data_buffer s"
  "plot_curve (update_heart_rate d s) = plot_curve s"
  "serial_open (update_heart_rate d s) = serial_open s"
  "timer_active (update_heart_rate d s) = timer_active s"
  "signal_quality_label (update_heart_rate d s) = signal_quality_label s"
  "signal_quality_style (update_heart_rate d s) = signal_quality_style s"
  by (auto simp: update_heart_rate_def estimate_def accept_rate_def log_debug_def Let_def
           split: sum.splits)

lemma update_plot_Waiting:
  assumes "serial_open s" "raw_data \<noteq> []"
  shows "update_plot s (Waiting raw_data) now =
     (let buf = fold (\<lambda>v b. deque_append MAX_POINTS b v) (readings_of (spec_events raw_data))
                     (data_buffer s);
          lead_off_detected = (LeadOff \<in> set (spec_events raw_data));
          s1 = s\<lparr>data_buffer := buf,
                 signal_quality_label :=
                   (if lead_off_detected then QualityLeadOff else QualityGood),
                 signal_quality_style := (if lead_off_detected then Red else Green)\<rparr>
      in if readings_of (spec_events raw_data) \<noteq> [] then
           (let s2 = s1\<lparr>data_count := data_count s1 + length (readings_of (spec_events raw_data)),
                        plot_curve :=
                          (np_linspace 0 (real (length buf) / real SAMPLE_RATE) (length buf), buf)\<rparr>
            in if now - last_update_time s \<ge> 1 then
                 (if \<not> lead_off_detected \<and> length buf \<ge> SAMPLE_RATE
                  then update_heart_rate buf s2 else s2)\<lparr>data_count := 0, last_update_time := now\<rparr>
               else s2)
         else s1)"
  using assms by (simp add: update_plot_def ingest_chunk Let_def)

text \<open>
  C5. A tick whose batch contains a LeadOff event does not run the estimator: the history,
  the heart-rate label, its style and the log, which are all that \<^verbatim>\<open>update_heart_rate\<close>
  writes, are as before the tick, whatever the buffer length and the elapsed time.
\<close>

theorem lead_off_skips_estimation:
  assumes "LeadOff \<in> set (spec_events raw_data)"
  shows "heart_rate_history (update_plot s (Waiting raw_data) now) = heart_rate_history s \<and>
         hr_label (update_plot s (Waiting raw_data) now) = hr_label s \<and>
         hr_style (update_plot s (Waiting raw_data) now) = hr_style s \<and>
         debug_text (update_plot s (Waiting raw_data) now) = debug_text s"
proof (cases "serial_open s \<and> raw_data \<noteq> []")
  case True
  then show ?thesis
    using assms by (simp add: update_plot_Waiting Let_def)
next
  case False
  then show ?thesis by (auto simp: update_plot_def)
qed

text \<open>
  C4, as the code has it. A tick that ingests bytes with at least one Reading sets the curve
  to the buffer after ingestion; a tick with no Reading leaves the curve as it was (and the
  buffer too).
\<close>

theorem waveform_refreshed_on_readings:
  assumes "serial_open s" and "raw_data \<noteq> []"
  shows "(readings_of (spec_events raw_data) \<noteq> [] \<longrightarrow>
            plot_curve (update_plot s (Waiting raw_data) now) =
              (np_linspace 0 (real (length (data_buffer (update_plot s (Waiting raw_data) now)))
                              / real SAMPLE_RATE)
                 (length (data_buffer (update_plot s (Waiting raw_data) now))),
               data_buffer (update_plot s (Waiting raw_data) now))) \<and>
         (readings_of (spec_events raw_data) = [] \<longrightarrow>
            plot_curve (update_plot s (Waiting raw_data) now) = plot_curve s \<and>
            data_buffer (update_plot s (Waiting raw_data) now) = data_buffer s)"
  by (simp add: update_plot_Waiting[OF assms] Let_def update_heart_rate_frame)

section \<open>Concrete ticks\<close>

lemma ex_chunk_lead: "spec_events ''-1\<newline>7\<newline>'' = [LeadOff, Reading 7]"
  by (simp add: spec_events_def spec_parse_line_def py_strip_def is_space_def
       py_int_def is_digit_def digit_val_def digits_value_def)

lemma ex_chunk_five: "spec_events ''5\<newline>'' = [Reading 5]"
  by (simp add: spec_events_def spec_parse_line_def py_strip_def is_space_def
       py_int_def is_digit_def digit_val_def digits_value_def)

lemma ex_chunk_only_lead: "spec_events ''-1\<newline>'' = [LeadOff]"
  by (simp add: spec_events_def spec_parse_line_def py_strip_def is_space_def
       py_int_def is_digit_def digit_val_def digits_value_def)

theorem parser_refines_events_witness:
  "ingest_lines (split_nl (py_strip ''-1\<newline>7\<newline>'')) ([3], 0, False) = ([3, 7], 1, True) \<and>
   spec_parse_line '' -1 '' = Some LeadOff \<and> spec_parse_line ''+1_0'' = Some (Reading 10) \<and>
   spec_parse_line ''1__0'' = None \<and> spec_parse_line ''- 1'' = None"
proof -
  note t = parser_refines_events[of "''-1\<newline>7\<newline>''" "[3]" 0 False]
  have a: "ingest_lines (split_nl (py_strip ''-1\<newline>7\<newline>'')) ([3], 0, False) = ([3, 7], 1, True)"
    using t[THEN conjunct2, THEN conjunct2, THEN conjunct1]
    unfolding ex_chunk_lead
    by (simp add: deque_append_def MAX_POINTS_def SAMPLE_RATE_def DISPLAY_TIME_SECONDS_def)
  have b: "spec_parse_line '' -1 '' = Some LeadOff" "spec_parse_line ''+1_0'' = Some (Reading 10)"
    "spec_parse_line ''1__0'' = None" "spec_parse_line ''- 1'' = None"
    by (simp_all add: spec_parse_line_def py_strip_def is_space_def
       py_int_def is_digit_def digit_val_def digits_value_def)
  show ?thesis using a b by simp
qed

theorem lead_off_skips_estimation_witness:
  "LeadOff \<in> set (spec_events ''-1\<newline>7\<newline>'') \<and>
   SAMPLE_RATE \<le> length (data_buffer ((accept_rate 60 (initial_state 0))
       \<lparr>serial_open := True, data_buffer := replicate 250 0\<rparr>)) \<and>
   (1::real) \<le> 5 - last_update_time ((accept_rate 60 (initial_state 0))
       \<lparr>serial_open := True, data_buffer := replicate 250 0\<rparr>) \<and>
   heart_rate_history (update_plot ((accept_rate 60 (initial_state 0))
       \<lparr>serial_open := True, data_buffer := replicate 250 0\<rparr>) (Waiting ''-1\<newline>7\<newline>'') 5) = [60] \<and>
   hr_label (update_plot ((accept_rate 60 (initial_state 0))
       \<lparr>serial_open := True, data_buffer := replicate 250 0\<rparr>) (Waiting ''-1\<newline>7\<newline>'') 5) = BPM 60"
proof -
  let ?s = "(accept_rate 60 (initial_state 0))\<lparr>serial_open := True, data_buffer := replicate 250 0\<rparr>"
  have p: "LeadOff \<in> set (spec_events ''-1\<newline>7\<newline>'')" by (simp add: ex_chunk_lead)
  have h: "heart_rate_history ?s = [60]" "hr_label ?s = BPM 60"
    by (simp_all add: accept_rate_def deque_append_def initial_state_def Let_def py_trunc_def)
  have l: "SAMPLE_RATE \<le> length (data_buffer ?s)" by (simp add: SAMPLE_RATE_def)
  have e: "(1::real) \<le> 5 - last_update_time ?s"
    by (simp add: accept_rate_def initial_state_def Let_def)
  note t = lead_off_skips_estimation[OF p, of ?s 5]
  show ?thesis
    using p l e t h by simp
qed

theorem waveform_refreshed_on_readings_witness:
  "plot_curve (update_plot ((initial_state 0)\<lparr>serial_open := True, data_buffer := [3]\<rparr>)
      (Waiting ''5\<newline>'') 0) = ([0, 1 / 125], [3, 5]) \<and>
   plot_curve (update_plot ((initial_state 0)\<lparr>serial_open := True, data_buffer := [3]\<rparr>)
      (Waiting ''-1\<newline>'') 0) = ([], [])"
proof -
  let ?s = "(initial_state 0)\<lparr>serial_open := True, data_buffer := [3]\<rparr>"
  have o: "serial_open ?s" by simp
  have n1: "''5\<newline>'' \<noteq> []" by simp
  have n2: "''-1\<newline>'' \<noteq> []" by simp
  have b1: "data_buffer (update_plot ?s (Waiting ''5\<newline>'') 0) = [3, 5]"
    by (simp add: update_plot_Waiting[OF o n1] ex_chunk_five Let_def update_heart_rate_frame
         deque_append_def MAX_POINTS_def SAMPLE_RATE_def DISPLAY_TIME_SECONDS_def)
  have a: "plot_curve (update_plot ?s (Waiting ''5\<newline>'') 0) = ([0, 1 / 125], [3, 5])"
    using waveform_refreshed_on_readings[OF o n1, of 0, THEN conjunct1]
    unfolding b1 ex_chunk_five
    by (simp add: np_linspace_def SAMPLE_RATE_def)
  have b: "plot_curve (update_plot ?s (Waiting ''-1\<newline>'') 0) = ([], [])"
    using waveform_refreshed_on_readings[OF o n2, of 0, THEN conjunct2]
    unfolding ex_chunk_only_lead
    by (simp add: initial_state_def)
  show ?thesis using a b by simp
qed

text \<open>
  Connect, receive one reading, disconnect, reconnect (which clears the buffer but not the
  curve), then a tick with only the lead-off sentinel: the tick ingests bytes, and the curve
  still shows the old sample while the buffer is empty.
\<close>

theorem stale_waveform_counterexample:
  "timer_active (run 0 [Toggle Opened 0, Tick (Waiting ''5\<newline>'') 0, Toggle Opened 1,
                        Toggle Opened 2]) \<and>
   serial_open (run 0 [Toggle Opened 0, Tick (Waiting ''5\<newline>'') 0, Toggle Opened 1,
                       Toggle Opened 2]) \<and>
   plot_curve (run 0 [Toggle Opened 0, Tick (Waiting ''5\<newline>'') 0, Toggle Opened 1,
                      Toggle Opened 2, Tick (Waiting ''-1\<newline>'') 3]) = ([0], [5]) \<and>
   data_buffer (run 0 [Toggle Opened 0, Tick (Waiting ''5\<newline>'') 0, Toggle Opened 1,
                       Toggle Opened 2, Tick (Waiting ''-1\<newline>'') 3]) = [] \<and>
   snd (plot_curve (run 0 [Toggle Opened 0, Tick (Waiting ''5\<newline>'') 0, Toggle Opened 1,
                      Toggle Opened 2, Tick (Waiting ''-1\<newline>'') 3])) \<noteq>
   data_buffer (run 0 [Toggle Opened 0, Tick (Waiting ''5\<newline>'') 0, Toggle Opened 1,
                       Toggle Opened 2, Tick (Waiting ''-1\<newline>'') 3])"
proof -
  let ?s1 = "toggle_connection (initial_state 0) Opened 0"
  have o1: "serial_open ?s1" "timer_active ?s1" "data_buffer ?s1 = []"
    by (simp_all add: toggle_connection_def initial_state_def log_debug_def)
  let ?s2 = "update_plot ?s1 (Waiting ''5\<newline>'') 0"
  have s2: "serial_open ?s2" "plot_curve ?s2 = ([0], [5])"
    using o1
    by (simp_all add: update_plot_Waiting ex_chunk_five Let_def update_heart_rate_frame
         deque_append_def MAX_POINTS_def SAMPLE_RATE_def DISPLAY_TIME_SECONDS_def np_linspace_def)
  let ?s3 = "toggle_connection ?s2 Opened 1"
  have s3: "\<not> serial_open ?s3" "plot_curve ?s3 = ([0], [5])"
    using s2 by (simp_all add: toggle_connection_def)
  let ?s4 = "toggle_connection ?s3 Opened 2"
  have s4: "serial_open ?s4" "timer_active ?s4" "plot_curve ?s4 = ([0], [5])" "data_buffer ?s4 = []"
    using s3 by (simp_all add: toggle_connection_def log_debug_def)
  let ?s5 = "update_plot ?s4 (Waiting ''-1\<newline>'') 3"
  have s5: "plot_curve ?s5 = ([0], [5])" "data_buffer ?s5 = []"
    using s4 by (simp_all add: update_plot_Waiting ex_chunk_only_lead Let_def)
  have r4: "run 0 [Toggle Opened 0, Tick (Waiting ''5\<newline>'') 0, Toggle Opened 1, Toggle Opened 2] = ?s4"
    using o1 by (simp add: run_def)
  have r5: "run 0 [Toggle Opened 0, Tick (Waiting ''5\<newline>'') 0, Toggle Opened 1, Toggle Opened 2,
                   Tick (Waiting ''-1\<newline>'') 3] = ?s5"
    using o1 s4 by (simp add: run_def)
  show ?thesis unfolding r4 r5 using s4 s5 by simp
qed

section \<open>The baseline filter and the peak scan\<close>

lemma window_sum_reindex:
  fixes g :: "nat \<Rightarrow> real"
  shows "(\<Sum>j\<leftarrow>[0..<25]. if j \<le> i + 12 \<and> i + 12 - j < L then g (i + 12 - j) * (1 / 25) else 0)
         = (\<Sum>k\<leftarrow>[i - 12..<min L (i + 13)]. g k) / 25"
proof -
  have "(\<Sum>j\<leftarrow>[0..<25]. if j \<le> i + 12 \<and> i + 12 - j < L then g (i + 12 - j) * (1 / 25) else 0)
        = (\<Sum>j\<in>{0..<25}. if j \<le> i + 12 \<and> i + 12 - j < L then g (i + 12 - j) / 25 else 0)"
    by (simp add: interv_sum_list_conv_sum_set_nat cong del: if_weak_cong)
  also have "\<dots> = (\<Sum>j\<in>{j \<in> {0..<25}. j \<le> i + 12 \<and> i + 12 - j < L}. g (i + 12 - j) / 25)"
    by (rule sum.inter_filter[symmetric]) simp
  also have "\<dots> = (\<Sum>k\<in>{i - 12..<min L (i + 13)}. g k / 25)"
    by (rule sum.reindex_bij_witness[where i = "\<lambda>k. i + 12 - k" and j = "\<lambda>j. i + 12 - j"]) auto
  also have "\<dots> = (\<Sum>k\<leftarrow>[i - 12..<min L (i + 13)]. g k) / 25"
    by (simp add: interv_sum_list_conv_sum_set_nat sum_divide_distrib)
  finally show ?thesis .
qed

lemma baseline_filter_long:
  assumes "25 \<le> length data"
  shows "baseline_filter data =
           Inr (map (\<lambda>i. real_of_int (data ! i)
                          - (\<Sum>k\<leftarrow>[i - 12..<min (length data) (i + 13)]. real_of_int (data ! k)) / 25)
                    [0..<length data])"
proof -
  let ?a = "map real_of_int data"
  let ?L = "length data"
  have conv: "np_convolve_same ?a (replicate FILTER_SIZE (1 / real FILTER_SIZE)) =
     Inr (map (\<lambda>i. \<Sum>j\<leftarrow>[0..<25]. if j \<le> i + 12 \<and> i + 12 - j < ?L
                                    then ?a ! (i + 12 - j) * (1 / 25) else 0) [0..<?L])"
    using assms by (auto simp: np_convolve_same_def FILTER_SIZE_def Let_def
                    cong del: if_weak_cong intro!: arg_cong[where f = sum_list])
  have entry: "(\<Sum>j\<leftarrow>[0..<25]. if j \<le> i + 12 \<and> i + 12 - j < ?L
                                    then ?a ! (i + 12 - j) * (1 / 25) else 0)
      = (\<Sum>k\<leftarrow>[i - 12..<min ?L (i + 13)]. real_of_int (data ! k)) / 25" for i
  proof -
    have e1: "(\<Sum>j\<leftarrow>[0..<25]. if j \<le> i + 12 \<and> i + 12 - j < ?L
                                    then ?a ! (i + 12 - j) * (1 / 25) else 0)
        = (\<Sum>j\<leftarrow>[0..<25]. if j \<le> i + 12 \<and> i + 12 - j < ?L
                                    then real_of_int (data ! (i + 12 - j)) * (1 / 25) else 0)"
      by (intro arg_cong[where f = sum_list] map_cong) auto
    show ?thesis unfolding e1 by (rule window_sum_reindex)
  qed
  have "np_subtract ?a (map (\<lambda>i. (\<Sum>k\<leftarrow>[i - 12..<min ?L (i + 13)]. real_of_int (data ! k)) / 25) [0..<?L])
        = Inr (map (\<lambda>i. real_of_int (data ! i)
                          - (\<Sum>k\<leftarrow>[i - 12..<min ?L (i + 13)]. real_of_int (data ! k)) / 25) [0..<?L])"
    by (auto simp: np_subtract_def intro!: nth_equalityI)
  then show ?thesis
    unfolding baseline_filter_def conv entry by simp
qed

lemma py_max_Max: "xs \<noteq> [] \<Longrightarrow> py_max xs = Inr (Max (set xs))"
proof (cases xs)
  case Nil
  assume "xs \<noteq> []"
  with Nil show ?thesis by simp
next
  case (Cons a list)
  show ?thesis unfolding Cons using Max.set_eq_fold[of a list] by simp
qed

lemma set_slice: "set (slice xs a b) = {xs ! k | k. a \<le> k \<and> k < b \<and> k < length xs}"
proof (intro set_eqI iffI)
  fix x
  assume "x \<in> set (slice xs a b)"
  then obtain j where j: "j < length (slice xs a b)" "x = slice xs a b ! j"
    by (auto simp: in_set_conv_nth)
  then have lt: "a + j < b" "a + j < length xs"
    by (auto simp: slice_def)
  then have "a \<le> length (take b xs)" by simp
  then have "drop a (take b xs) ! j = take b xs ! (a + j)" by (rule nth_drop)
  then have "x = xs ! (a + j)" using j(2) lt by (simp add: slice_def)
  note this lt
  then show "x \<in> {xs ! k | k. a \<le> k \<and> k < b \<and> k < length xs}"
    by (intro CollectI exI[of _ "a + j"]) auto
next
  fix x
  assume "x \<in> {xs ! k | k. a \<le> k \<and> k < b \<and> k < length xs}"
  then obtain k where k: "x = xs ! k" "a \<le> k" "k < b" "k < length xs" by auto
  then have l: "k - a < length (slice xs a b)" by (auto simp: slice_def)
  from k have "a \<le> length (take b xs)" by simp
  then have "drop a (take b xs) ! (k - a) = take b xs ! (a + (k - a))" by (rule nth_drop)
  then have "slice xs a b ! (k - a) = xs ! k" using k by (simp add: slice_def)
  note l this
  then show "x \<in> set (slice xs a b)"
    using k(1) by (metis nth_mem)
qed

lemma vicinity_check:
  assumes "i < length fd"
  shows "py_max (slice fd (nat (max 0 (int i - 15))) (min (length fd) (i + 15))) = Inr m \<Longrightarrow>
         (fd ! i = m) = (\<forall>k. i - 15 \<le> k \<and> k < i + 15 \<and> k < length fd \<longrightarrow> fd ! k \<le> fd ! i)"
    and "\<exists>m. py_max (slice fd (nat (max 0 (int i - 15))) (min (length fd) (i + 15))) = Inr m"
proof -
  let ?s = "slice fd (nat (max 0 (int i - 15))) (min (length fd) (i + 15))"
  have st: "nat (max 0 (int i - 15)) = i - 15" by auto
  have S: "set ?s = {fd ! k | k. i - 15 \<le> k \<and> k < i + 15 \<and> k < length fd}"
    unfolding st set_slice by auto
  have mem: "fd ! i \<in> set ?s" unfolding S using assms by auto
  then have ne: "?s \<noteq> []" by auto
  have M: "py_max ?s = Inr (Max (set ?s))" by (rule py_max_Max[OF ne])
  show "\<exists>m. py_max ?s = Inr m" using M by blast
  assume "py_max ?s = Inr m"
  then have m: "m = Max (set ?s)" using M by simp
  have "(fd ! i = Max (set ?s)) = (\<forall>x \<in> set ?s. x \<le> fd ! i)"
    using mem by (metis List.finite_set Max_eqI Max_ge)
  also have "\<dots> = (\<forall>k. i - 15 \<le> k \<and> k < i + 15 \<and> k < length fd \<longrightarrow> fd ! k \<le> fd ! i)"
    unfolding S by auto
  finally show "(fd ! i = m) = (\<forall>k. i - 15 \<le> k \<and> k < i + 15 \<and> k < length fd \<longrightarrow> fd ! k \<le> fd ! i)"
    unfolding m .
qed

lemma scan_peaks_filter:
  assumes "\<forall>i \<in> set idx. i < length fd"
  shows "scan_peaks fd thr idx = Inr (filter (is_peak fd thr) idx)"
  using assms
proof (induction idx)
  case Nil
  then show ?case by simp
next
  case (Cons i idx)
  then have i: "i < length fd" and ih: "scan_peaks fd thr idx = Inr (filter (is_peak fd thr) idx)"
    by auto
  obtain m where m: "py_max (slice fd (nat (max 0 (int i - 15))) (min (length fd) (i + 15))) = Inr m"
    using vicinity_check(2)[OF i] by blast
  show ?case
  proof (cases "fd ! i > thr \<and> fd ! i > fd ! (i - 1) \<and> fd ! i > fd ! (i + 1)")
    case True
    have ip: "is_peak fd thr i = (fd ! i = m)"
      using True vicinity_check(1)[OF i m] by (simp add: is_peak_def)
    show ?thesis using True m ih ip by (simp add: Let_def)
  next
    case False
    then have np: "\<not> is_peak fd thr i" by (auto simp: is_peak_def)
    have "scan_peaks fd thr (i # idx) = scan_peaks fd thr idx"
      by (subst scan_peaks.simps) (simp only: False if_False)
    then show ?thesis using np ih by simp
  qed
qed

lemma find_peaks_filter:
  "find_peaks fd = Inr (filter (is_peak fd (np_mean fd + 1.5 * np_std fd))
                          [5..<length fd - 5])"
proof -
  have n: "nat (int (length fd) - 5) = length fd - 5" by auto
  have r: "\<forall>i \<in> set [5..<length fd - 5]. i < length fd" by auto
  show ?thesis
    unfolding find_peaks_def Let_def n by (rule scan_peaks_filter[OF r])
qed






section \<open>The pipeline on the test input\<close>

lemma length_example_beats [simp]: "length example_beats = 250"
  by (simp add: example_beats_def)

lemma example_beats_nth:
  "k < 250 \<Longrightarrow> example_beats ! k =
     (if k = 230 then 200 else if k = 65 then 200 else if k = 50 then 100 else 0)"
  by (simp add: example_beats_def nth_list_update)

lemma point_sum:
  fixes c :: real
  shows "(\<Sum>k = lo..<hi. if k = (a::nat) then c else 0) = (if lo \<le> a \<and> a < hi then c else 0)"
  by (subst sum.delta) auto

lemma example_window:
  assumes "i < 250"
  shows "(\<Sum>k\<leftarrow>[i - 12..<min 250 (i + 13)]. real_of_int (example_beats ! k)) =
         (if 38 \<le> i \<and> i \<le> 62 then 100 else 0) + (if 53 \<le> i \<and> i \<le> 77 then 200 else 0)
         + (if 218 \<le> i \<and> i \<le> 242 then 200 else 0)"
proof -
  let ?lo = "i - 12" and ?hi = "min 250 (i + 13)"
  have "(\<Sum>k\<leftarrow>[?lo..<?hi]. real_of_int (example_beats ! k))
        = (\<Sum>k = ?lo..<?hi. real_of_int (example_beats ! k))"
    by (simp add: interv_sum_list_conv_sum_set_nat)
  also have "\<dots> = (\<Sum>k = ?lo..<?hi. (if k = 50 then 100 else 0) + (if k = 65 then 200 else 0)
                                   + (if k = 230 then 200 else (0::real)))"
    by (intro sum.cong refl) (auto simp: example_beats_nth)
  also have "\<dots> = (if ?lo \<le> 50 \<and> 50 < ?hi then 100 else 0) + (if ?lo \<le> 65 \<and> 65 < ?hi then 200 else 0)
                  + (if ?lo \<le> 230 \<and> 230 < ?hi then 200 else 0)"
    by (simp only: sum.distrib point_sum)
  also have "\<dots> = (if 38 \<le> i \<and> i \<le> 62 then 100 else 0) + (if 53 \<le> i \<and> i \<le> 77 then 200 else 0)
         + (if 218 \<le> i \<and> i \<le> 242 then 200 else 0)"
    using assms by auto
  finally show ?thesis .
qed

lemma example_baseline: "baseline_filter example_beats = Inr (map example_filtered [0..<250])"
proof -
  have "baseline_filter example_beats =
          Inr (map (\<lambda>i. real_of_int (example_beats ! i)
                     - (\<Sum>k\<leftarrow>[i - 12..<min 250 (i + 13)]. real_of_int (example_beats ! k)) / 25)
               [0..<250])"
    using baseline_filter_long[of example_beats] by simp
  also have "map (\<lambda>i. real_of_int (example_beats ! i)
                     - (\<Sum>k\<leftarrow>[i - 12..<min 250 (i + 13)]. real_of_int (example_beats ! k)) / 25)
               [0..<250] = map example_filtered [0..<250]"
    by (intro map_cong refl) (auto simp: example_window example_beats_nth example_filtered_def)
  finally show ?thesis .
qed

lemma example_values:
  "example_filtered 50 = 96" "example_filtered 65 = 192" "example_filtered 230 = 192"
  by (simp_all add: example_filtered_def)

lemma example_others:
  assumes "i \<noteq> 50" "i \<noteq> 65" "i \<noteq> 230"
  shows "- 12 \<le> example_filtered i \<and> example_filtered i \<le> 0"
  using assms by (auto simp: example_filtered_def)

lemma interval_sum:
  fixes c :: real
  assumes "lo \<le> hi" "hi < n"
  shows "(\<Sum>i = 0..<n. if lo \<le> i \<and> i \<le> hi then c else 0) = real (hi - lo + 1) * c"
proof -
  have "(\<Sum>i = 0..<n. if lo \<le> i \<and> i \<le> hi then c else 0)
        = (\<Sum>i\<in>{i \<in> {0..<n}. lo \<le> i \<and> i \<le> hi}. c)"
    by (rule sum.inter_filter[symmetric]) simp
  also have "{i \<in> {0..<n}. lo \<le> i \<and> i \<le> hi} = {lo..hi}"
    using assms by auto
  finally show ?thesis using assms by simp
qed

lemma example_sum: "sum_list (map example_filtered [0..<250]) = 0"
proof -
  have "sum_list (map example_filtered [0..<250]) = (\<Sum>i = 0..<250. example_filtered i)"
    by (simp add: interv_sum_list_conv_sum_set_nat)
  also have "\<dots> = (\<Sum>i = (0::nat)..<250. (if i = 50 then 100 else 0) + (if i = 65 then 200 else 0)
                        + (if i = 230 then 200 else 0)
                        - ((if 38 \<le> i \<and> i \<le> 62 then 100 else 0)
                           + (if 53 \<le> i \<and> i \<le> 77 then 200 else 0)
                           + (if 218 \<le> i \<and> i \<le> 242 then 200 else 0)) / 25)"
    by (intro sum.cong refl) (auto simp: example_filtered_def)
  also have "\<dots> = 0"
    by (simp only: sum_subtractf sum.distrib sum_divide_distrib[symmetric] point_sum interval_sum)
       simp
  finally show ?thesis .
qed

lemma example_mean: "np_mean (map example_filtered [0..<250]) = 0"
  by (simp add: np_mean_def example_sum)

lemma example_squares: "(\<Sum>i = 0..<250. (example_filtered i)\<^sup>2) \<le> 118512"
proof -
  let ?A = "{0..<250} - {50} - {65} - {230::nat}"
  have "(\<Sum>i = 0..<250. (example_filtered i)\<^sup>2)
        = (example_filtered 50)\<^sup>2 + (\<Sum>i\<in>{0..<250} - {50}. (example_filtered i)\<^sup>2)"
    by (rule sum.remove) auto
  also have "(\<Sum>i\<in>{0..<250} - {50}. (example_filtered i)\<^sup>2)
        = (example_filtered 65)\<^sup>2 + (\<Sum>i\<in>{0..<250} - {50} - {65}. (example_filtered i)\<^sup>2)"
    by (rule sum.remove) auto
  also have "(\<Sum>i\<in>{0..<250} - {50} - {65}. (example_filtered i)\<^sup>2)
        = (example_filtered 230)\<^sup>2 + (\<Sum>i\<in>?A. (example_filtered i)\<^sup>2)"
    by (rule sum.remove) auto
  finally have split: "(\<Sum>i = 0..<250. (example_filtered i)\<^sup>2)
      = 96\<^sup>2 + (192\<^sup>2 + (192\<^sup>2 + (\<Sum>i\<in>?A. (example_filtered i)\<^sup>2)))"
    by (simp only: example_values)
  have each: "(example_filtered i)\<^sup>2 \<le> 144" if "i \<in> ?A" for i
  proof -
    have b: "- 12 \<le> example_filtered i \<and> example_filtered i \<le> 0"
      using that by (intro example_others) auto
    then have "\<bar>example_filtered i\<bar> \<le> 12" by auto
    then have "\<bar>example_filtered i\<bar>\<^sup>2 \<le> 12\<^sup>2" by (rule power_mono) simp
    then show ?thesis by simp
  qed
  have card: "card ?A = 247" by simp
  have "(\<Sum>i\<in>?A. (example_filtered i)\<^sup>2) \<le> real (card ?A) * 144"
    using each by (rule sum_bounded_above)
  then show ?thesis unfolding split card by simp
qed

lemma example_threshold:
  "0 \<le> np_mean (map example_filtered [0..<250]) + 1.5 * np_std (map example_filtered [0..<250])"
  "np_mean (map example_filtered [0..<250]) + 1.5 * np_std (map example_filtered [0..<250]) < 33"
proof -
  let ?fd = "map example_filtered [0..<250]"
  have v: "np_mean (map (\<lambda>x. (x - np_mean ?fd)\<^sup>2) ?fd) = (\<Sum>i = 0..<250. (example_filtered i)\<^sup>2) / 250"
    unfolding example_mean
    by (simp add: np_mean_def interv_sum_list_conv_sum_set_nat comp_def)
  have nn: "0 \<le> (\<Sum>i = 0..<250. (example_filtered i)\<^sup>2) / 250"
    by (intro divide_nonneg_pos sum_nonneg) auto
  have "(\<Sum>i = 0..<250. (example_filtered i)\<^sup>2) / 250 < 22\<^sup>2"
    using example_squares by simp
  then have "sqrt ((\<Sum>i = 0..<250. (example_filtered i)\<^sup>2) / 250) < 22"
    by (intro real_less_lsqrt) simp_all
  then have s: "np_std ?fd < 22" unfolding np_std_def v .
  have s0: "0 \<le> np_std ?fd" unfolding np_std_def v using nn by simp
  show "0 \<le> np_mean ?fd + 1.5 * np_std ?fd" using s0 by (simp add: example_mean)
  show "np_mean ?fd + 1.5 * np_std ?fd < 33" using s by (simp add: example_mean)
qed

lemma example_nth: "i < 250 \<Longrightarrow> map example_filtered [0..<250] ! i = example_filtered i"
  by simp

lemma example_le_96:
  assumes "k \<noteq> 65" "k \<noteq> 230"
  shows "example_filtered k \<le> 96"
proof (cases "k = 50")
  case True
  then show ?thesis by (simp add: example_values)
next
  case False
  then have "example_filtered k \<le> 0" using example_others[of k] assms by simp
  then show ?thesis by simp
qed

lemma example_le_192: "example_filtered k \<le> 192"
proof (cases "k = 65 \<or> k = 230")
  case True
  then show ?thesis by (auto simp: example_values)
next
  case False
  then have "example_filtered k \<le> 96" by (intro example_le_96) auto
  then show ?thesis by simp
qed

lemma example_is_peak:
  assumes "5 \<le> i" and "i < 245"
  shows "is_peak (map example_filtered [0..<250])
           (np_mean (map example_filtered [0..<250]) + 1.5 * np_std (map example_filtered [0..<250])) i
         = (i = 50 \<or> i = 65 \<or> i = 230)"
proof -
  let ?fd = "map example_filtered [0..<250]"
  let ?thr = "np_mean ?fd + 1.5 * np_std ?fd"
  note thr = example_threshold
  have nth: "?fd ! i = example_filtered i" "?fd ! (i - 1) = example_filtered (i - 1)"
    "?fd ! (i + 1) = example_filtered (i + 1)"
    using assms by simp_all
  have P: "is_peak ?fd ?thr i =
     (example_filtered i > ?thr \<and> example_filtered i > example_filtered (i - 1) \<and>
      example_filtered i > example_filtered (i + 1) \<and>
      (\<forall>k. i - 15 \<le> k \<and> k < i + 15 \<and> k < 250 \<longrightarrow> example_filtered k \<le> example_filtered i))"
    unfolding is_peak_def nth by (auto simp: example_nth)
  show ?thesis
  proof (cases "i = 50 \<or> i = 65 \<or> i = 230")
    case False
    then have "example_filtered i \<le> 0" using example_others[of i] by simp
    then have "\<not> example_filtered i > ?thr" using thr(1) by linarith
    then show ?thesis using False unfolding P by simp
  next
    case True
    then consider "i = 50" | "i = 65" | "i = 230" by blast
    then show ?thesis
    proof cases
      case 1
      have n: "example_filtered 49 = - 4" "example_filtered 51 = - 4"
        by (simp_all add: example_filtered_def)
      have v: "\<forall>k. 35 \<le> k \<and> k < 65 \<and> k < 250 \<longrightarrow> example_filtered k \<le> 96"
        by (auto intro: example_le_96)
      show ?thesis unfolding P using thr(2) n v by (simp add: 1 example_values)
    next
      case 2
      have n: "example_filtered 64 = - 8" "example_filtered 66 = - 8"
        by (simp_all add: example_filtered_def)
      show ?thesis unfolding P using thr(2) n example_le_192 by (simp add: 2 example_values)
    next
      case 3
      have n: "example_filtered 229 = - 8" "example_filtered 231 = - 8"
        by (simp_all add: example_filtered_def)
      show ?thesis unfolding P using thr(2) n example_le_192 by (simp add: 3 example_values)
    qed
  qed
qed

lemma example_peaks: "find_peaks (map example_filtered [0..<250]) = Inr [50, 65, 230]"
proof -
  let ?fd = "map example_filtered [0..<250]"
  let ?thr = "np_mean ?fd + 1.5 * np_std ?fd"
  let ?P = "\<lambda>i::nat. i = 50 \<or> i = 65 \<or> i = 230"
  have fp: "find_peaks ?fd = Inr (filter (is_peak ?fd ?thr) [5..<245])"
    using find_peaks_filter[of ?fd] by (simp del: upt_rec_numeral)
  have "filter (is_peak ?fd ?thr) [5..<245] = filter ?P [5..<245]"
  proof (rule filter_cong[OF refl])
    fix x :: nat
    assume "x \<in> set [5..<245]"
    then have "5 \<le> x" "x < 245" by (simp_all del: upt_rec_numeral)
    then show "is_peak ?fd ?thr x = ?P x" by (rule example_is_peak)
  qed
  also have "\<dots> = [50, 65, 230]"
  proof (rule sorted_distinct_set_unique)
    show "sorted (filter ?P [5..<245])" by (rule sorted_wrt_filter) (rule sorted_upt)
    show "distinct (filter ?P [5..<245])" by (rule distinct_filter) (rule distinct_upt)
    show "sorted [50, 65, 230::nat]" by simp
    show "distinct [50, 65, 230::nat]" by simp
    show "set (filter ?P [5..<245]) = set [50, 65, 230]"
      by (auto simp del: upt_rec_numeral)
  qed
  finally show ?thesis unfolding fp by simp
qed

lemma non_dividing_rate:
  assumes "sorted_wrt (<) peaks" and "2 \<le> length peaks" and "last peaks < 2 ^ 32"
    and "\<not> (int (last peaks) - int (hd peaks)) dvd (15000 * (int (length peaks) - 1))"
  shows "heart_rate_of peaks =
           Inr ((15000 * (int (length peaks) - 1)) div (int (last peaks) - int (hd peaks)))"
  using heart_rate_near_exact[OF assms(1-3)] assms(4) by auto

lemma example_rate: "heart_rate_of [50, 65, 230] = Inr 166"
  using non_dividing_rate[of "[50, 65, 230]"] by simp

lemma rate_without_50: "heart_rate_of [65, 230] = Inr 90"
  using non_dividing_rate[of "[65, 230]"] by simp

lemma example_update: "update_heart_rate example_beats s = accept_rate 166 s"
  by (simp add: update_heart_rate_def example_baseline example_peaks estimate_def example_rate
                MIN_HEART_RATE_def MAX_HEART_RATE_def)

text \<open>
  C3. On the test input the scan emits index 50, whose filtered value is 96, although the
  sample fifteen positions later, at index 65, holds 192 and lies in the vicinity of radius
  15: the window that the code tests is \<open>[i - 15, i + 15)\<close> and ends at \<open>i + 14\<close>. The three
  emitted peaks give a rate of 166; without index 50 the rate is 90.
\<close>

theorem vicinity_misses_offset_15:
  "baseline_filter example_beats = Inr (map example_filtered [0..<250]) \<and>
   find_peaks (map example_filtered [0..<250]) = Inr [50, 65, 230] \<and>
   map example_filtered [0..<250] ! 50 = 96 \<and>
   map example_filtered [0..<250] ! (50 + 15) = 192 \<and>
   map example_filtered [0..<250] ! (50 + 15)
     \<in> set (spec_vicinity (map example_filtered [0..<250]) 50) \<and>
   hr_label (update_heart_rate example_beats (initial_state 0)) = BPM 166 \<and>
   heart_rate_of [65, 230] = Inr 90"
proof -
  let ?fd = "map example_filtered [0..<250]"
  have a: "?fd ! 50 = 96" "?fd ! (50 + 15) = 192"
    by (simp_all add: example_values)
  have "?fd ! 65 \<in> {?fd ! k | k. 35 \<le> k \<and> k < 66 \<and> k < length ?fd}"
    by (intro CollectI exI[of _ 65]) simp
  then have m: "?fd ! (50 + 15) \<in> set (spec_vicinity ?fd 50)"
    by (simp add: spec_vicinity_def set_slice)
  have l: "hr_label (update_heart_rate example_beats (initial_state 0)) = BPM 166"
    by (simp add: example_update accept_rate_def deque_append_def initial_state_def Let_def
                  py_trunc_def)
  show ?thesis
    by (intro conjI) (rule example_baseline, rule example_peaks, rule a(1), rule a(2), rule m,
                      rule l, rule rate_without_50)
qed

section \<open>Running the estimator twice\<close>

lemma update_heart_rate_kind:
  "(\<exists>r. MIN_HEART_RATE \<le> r \<and> r \<le> MAX_HEART_RATE \<and> (\<forall>s. update_heart_rate d s = accept_rate r s)) \<or>
   (\<exists>e. \<forall>s. update_heart_rate d s = log_debug (HeartRateError e) s) \<or>
   (\<forall>s. update_heart_rate d s = s\<lparr>hr_label := NoReading\<rparr>)"
  by (auto simp: update_heart_rate_def estimate_def split: sum.splits)

lemma find_peaks_sorted:
  assumes "find_peaks fd = Inr peaks"
  shows "sorted_wrt (<) peaks"
proof -
  have "peaks = filter (is_peak fd (np_mean fd + 1.5 * np_std fd)) [5..<length fd - 5]"
    using assms find_peaks_filter[of fd] by simp
  then show ?thesis by (simp add: sorted_wrt_filter)
qed

lemma update_heart_rate_no_error:
  assumes "25 \<le> length d"
  shows "debug_text (update_heart_rate d s) = debug_text s"
proof -
  obtain fd where fd: "baseline_filter d = Inr fd"
    using baseline_filter_long[OF assms] by blast
  obtain peaks where peaks: "find_peaks fd = Inr peaks"
    using find_peaks_filter[of fd] by blast
  have srt: "sorted_wrt (<) peaks" by (rule find_peaks_sorted[OF peaks])
  show ?thesis
  proof (cases "2 \<le> length peaks")
    case True
    obtain hr where "heart_rate_of peaks = Inr hr"
      using heart_rate_of_float(1)[OF srt True] by blast
    then show ?thesis
      using True by (simp add: update_heart_rate_def fd peaks estimate_def accept_rate_def Let_def)
  next
    case False
    then show ?thesis by (simp add: update_heart_rate_def fd peaks estimate_def)
  qed
qed

text \<open>
  C2, as the code has it. A second run of \<^verbatim>\<open>update_heart_rate\<close> on the same snapshot leaves the
  curve, the buffer and the quality label as they were, and decides as the first run did,
  since the decision depends on the snapshot only. If the rate is rejected or fewer than two
  peaks are found, the second run leaves the state as the first left it. If the rate is
  accepted, the second run appends it to the history once more and shows the mean of that
  history. (A snapshot shorter than 25 samples makes both runs log an error; a longer one
  never does.)
\<close>

theorem rerun_pipeline:
  "plot_curve (update_heart_rate d (update_heart_rate d s)) = plot_curve s \<and>
   data_buffer (update_heart_rate d (update_heart_rate d s)) = data_buffer s \<and>
   signal_quality_label (update_heart_rate d (update_heart_rate d s)) = signal_quality_label s \<and>
   signal_quality_style (update_heart_rate d (update_heart_rate d s)) = signal_quality_style s \<and>
   ((\<exists>r. MIN_HEART_RATE \<le> r \<and> r \<le> MAX_HEART_RATE \<and>
         update_heart_rate d s = accept_rate r s \<and>
         update_heart_rate d (update_heart_rate d s) = accept_rate r (accept_rate r s)) \<or>
    (\<exists>e. update_heart_rate d s = log_debug (HeartRateError e) s \<and>
         update_heart_rate d (update_heart_rate d s)
           = log_debug (HeartRateError e) (log_debug (HeartRateError e) s)) \<or>
    (update_heart_rate d s = s\<lparr>hr_label := NoReading\<rparr> \<and>
     update_heart_rate d (update_heart_rate d s) = update_heart_rate d s)) \<and>
   (25 \<le> length d \<longrightarrow>
      debug_text (update_heart_rate d (update_heart_rate d s)) = debug_text s)"
proof -
  have frame: "plot_curve (update_heart_rate d (update_heart_rate d s)) = plot_curve s"
    "data_buffer (update_heart_rate d (update_heart_rate d s)) = data_buffer s"
    "signal_quality_label (update_heart_rate d (update_heart_rate d s)) = signal_quality_label s"
    "signal_quality_style (update_heart_rate d (update_heart_rate d s)) = signal_quality_style s"
    by (simp_all add: update_heart_rate_frame)
  have kinds: "(\<exists>r. MIN_HEART_RATE \<le> r \<and> r \<le> MAX_HEART_RATE \<and>
         update_heart_rate d s = accept_rate r s \<and>
         update_heart_rate d (update_heart_rate d s) = accept_rate r (accept_rate r s)) \<or>
    (\<exists>e. update_heart_rate d s = log_debug (HeartRateError e) s \<and>
         update_heart_rate d (update_heart_rate d s)
           = log_debug (HeartRateError e) (log_debug (HeartRateError e) s)) \<or>
    (update_heart_rate d s = s\<lparr>hr_label := NoReading\<rparr> \<and>
     update_heart_rate d (update_heart_rate d s) = update_heart_rate d s)"
    using update_heart_rate_kind[of d] by (elim disjE exE conjE) auto
  have noerr: "25 \<le> length d \<longrightarrow>
      debug_text (update_heart_rate d (update_heart_rate d s)) = debug_text s"
    by (simp add: update_heart_rate_no_error)
  show ?thesis using frame kinds noerr by blast
qed

text \<open>
  With 60 in the history, the first run on the test input shows 113, the mean of 60 and
  166, and the second run shows 130, the mean of 60, 166 and 166.
\<close>

theorem rerun_changes_bpm_counterexample:
  "hr_label (update_heart_rate example_beats (accept_rate 60 (initial_state 0))) = BPM 113 \<and>
   hr_label (update_heart_rate example_beats
               (update_heart_rate example_beats (accept_rate 60 (initial_state 0)))) = BPM 130"
  by (simp add: example_update accept_rate_def deque_append_def initial_state_def Let_def
                py_trunc_def)

theorem rerun_pipeline_witness:
  "25 \<le> length example_beats \<and>
   update_heart_rate example_beats (update_heart_rate example_beats (initial_state 0))
     = accept_rate 166 (accept_rate 166 (initial_state 0)) \<and>
   debug_text (update_heart_rate example_beats (update_heart_rate example_beats (initial_state 0)))
     = []"
proof -
  note t = rerun_pipeline[of example_beats "initial_state 0"]
  have l: "25 \<le> length example_beats" by simp
  have d: "debug_text (update_heart_rate example_beats
              (update_heart_rate example_beats (initial_state 0))) = []"
    using t l by (simp add: initial_state_def)
  have first: "update_heart_rate example_beats (initial_state 0) = accept_rate 166 (initial_state 0)"
    by (rule example_update)
  have h: "heart_rate_history (accept_rate r (initial_state 0)) = [r]" for r
    by (simp add: accept_rate_def deque_append_def initial_state_def Let_def)
  have lb: "hr_label (accept_rate r s) \<noteq> NoReading" for r s
    by (simp add: accept_rate_def Let_def)
  have dt: "debug_text (accept_rate r s) = debug_text s" for r s
    by (simp add: accept_rate_def Let_def)
  from t have "(\<exists>r. update_heart_rate example_beats (initial_state 0) = accept_rate r (initial_state 0) \<and>
         update_heart_rate example_beats (update_heart_rate example_beats (initial_state 0))
           = accept_rate r (accept_rate r (initial_state 0))) \<or>
    (\<exists>e. update_heart_rate example_beats (initial_state 0)
            = log_debug (HeartRateError e) (initial_state 0)) \<or>
    update_heart_rate example_beats (initial_state 0) = (initial_state 0)\<lparr>hr_label := NoReading\<rparr>"
    by blast
  then have "update_heart_rate example_beats (update_heart_rate example_beats (initial_state 0))
     = accept_rate 166 (accept_rate 166 (initial_state 0))"
  proof (elim disjE exE conjE)
    fix r
    assume a: "update_heart_rate example_beats (initial_state 0) = accept_rate r (initial_state 0)"
      and b: "update_heart_rate example_beats (update_heart_rate example_beats (initial_state 0))
           = accept_rate r (accept_rate r (initial_state 0))"
    have "[r] = [166]" using a first h by metis
    then show ?thesis using b by simp
  next
    fix e
    assume "update_heart_rate example_beats (initial_state 0)
            = log_debug (HeartRateError e) (initial_state 0)"
    then have "debug_text (accept_rate 166 (initial_state 0))
               = debug_text (log_debug (HeartRateError e) (initial_state 0))"
      using first by simp
    then show ?thesis by (simp add: dt log_debug_def initial_state_def)
  next
    assume "update_heart_rate example_beats (initial_state 0) = (initial_state 0)\<lparr>hr_label := NoReading\<rparr>"
    then have "hr_label (accept_rate 166 (initial_state 0)) = NoReading" using first by simp
    then show ?thesis using lb by blast
  qed
  then show ?thesis using l d by simp
qed

section \<open>The history invariant over runs\<close>

lemma spec_events_Nil [simp]: "spec_events [] = []"
  by (simp add: spec_events_def)

lemma spec_events_number_line:
  "spec_events (''0\<newline>'' @ rest) = Reading 0 # spec_events rest"
  "spec_events (''100\<newline>'' @ rest) = Reading 100 # spec_events rest"
  "spec_events (''200\<newline>'' @ rest) = Reading 200 # spec_events rest"
proof -
  have e: "spec_events ''0'' = [Reading 0]" "spec_events ''100'' = [Reading 100]"
    "spec_events ''200'' = [Reading 200]"
    by (simp_all add: spec_events_def spec_parse_line_def py_strip_def is_space_def
         py_int_def is_digit_def digit_val_def digits_value_def)
  show "spec_events (''0\<newline>'' @ rest) = Reading 0 # spec_events rest"
    using spec_events_nl[of "''0''" rest] e by simp
  show "spec_events (''100\<newline>'' @ rest) = Reading 100 # spec_events rest"
    using spec_events_nl[of "''100''" rest] e by simp
  show "spec_events (''200\<newline>'' @ rest) = Reading 200 # spec_events rest"
    using spec_events_nl[of "''200''" rest] e by simp
qed

lemma spec_events_zero_lines:
  "spec_events (concat (replicate n ''0\<newline>'') @ rest) = replicate n (Reading 0) @ spec_events rest"
proof (induction n)
  case 0
  then show ?case by simp
next
  case (Suc n)
  have "concat (replicate (Suc n) ''0\<newline>'') @ rest = ''0\<newline>'' @ (concat (replicate n ''0\<newline>'') @ rest)"
    by simp
  then show ?case
    using spec_events_number_line(1)[of "concat (replicate n ''0\<newline>'') @ rest"] Suc by simp
qed

lemma readings_of_append: "readings_of (a @ b) = readings_of a @ readings_of b"
  by (induction a rule: readings_of.induct) simp_all

lemma readings_of_zeros: "readings_of (replicate n (Reading 0)) = replicate n 0"
  by (induction n) simp_all

lemma example_beats_append:
  "example_beats = replicate 50 0 @ [100] @ replicate 14 0 @ [200] @ replicate 164 0 @ [200]
                   @ replicate 19 0"
  by (rule nth_equalityI) (auto simp: example_beats_nth nth_append nth_Cons')

lemma spec_events_zero_lines_end:
  "spec_events (concat (replicate n ''0\<newline>'')) = replicate n (Reading 0)"
  using spec_events_zero_lines[of n "[]"] by simp

lemma example_chunk_events:
  "spec_events example_chunk =
     replicate 50 (Reading 0) @ Reading 100 # replicate 14 (Reading 0) @ Reading 200 #
     replicate 164 (Reading 0) @ Reading 200 # replicate 19 (Reading 0)"
  unfolding example_chunk_def
  by (simp only: spec_events_zero_lines spec_events_number_line spec_events_zero_lines_end
                 append_assoc)

lemma example_chunk_readings: "readings_of (spec_events example_chunk) = example_beats"
  by (simp add: example_chunk_events readings_of_append readings_of_zeros example_beats_append)

lemma example_chunk_no_lead_off: "LeadOff \<notin> set (spec_events example_chunk)"
  by (auto simp: example_chunk_events)

lemma fold_deque_append:
  "length buf + length vs \<le> n \<Longrightarrow> fold (\<lambda>v b. deque_append n b v) vs buf = buf @ vs"
  by (induction vs arbitrary: buf) (auto simp: deque_append_def Let_def)

lemma example_run:
  "heart_rate_history (run 0 [Toggle Opened 0, Tick (Waiting example_chunk) 1]) = [166]"
  "hr_label (run 0 [Toggle Opened 0, Tick (Waiting example_chunk) 1]) = BPM 166"
  "data_buffer (run 0 [Toggle Opened 0, Tick (Waiting example_chunk) 1]) = example_beats"
proof -
  let ?s1 = "toggle_connection (initial_state 0) Opened 0"
  have s1: "serial_open ?s1" "timer_active ?s1" "data_buffer ?s1 = []" "last_update_time ?s1 = 0"
    "heart_rate_history ?s1 = []"
    by (simp_all add: toggle_connection_def initial_state_def log_debug_def)
  have ne: "example_chunk \<noteq> []" by (simp add: example_chunk_def)
  have buf: "fold (\<lambda>v b. deque_append MAX_POINTS b v) example_beats [] = example_beats"
    by (subst fold_deque_append) (simp_all add: MAX_POINTS_def SAMPLE_RATE_def DISPLAY_TIME_SECONDS_def)
  have ex_ne: "example_beats \<noteq> []" by (simp add: example_beats_def)
  have up: "update_plot ?s1 (Waiting example_chunk) 1 =
        (accept_rate 166
           (?s1\<lparr>data_buffer := example_beats, signal_quality_label := QualityGood,
                 signal_quality_style := Green,
                 data_count := data_count ?s1 + 250,
                 plot_curve := (np_linspace 0 (250 / real SAMPLE_RATE) 250, example_beats)\<rparr>))
        \<lparr>data_count := 0, last_update_time := 1\<rparr>"
    unfolding update_plot_Waiting[OF s1(1) ne]
    by (simp add: example_chunk_readings example_chunk_no_lead_off s1 buf ex_ne Let_def
                  example_update SAMPLE_RATE_def)
  have r: "run 0 [Toggle Opened 0, Tick (Waiting example_chunk) 1]
           = update_plot ?s1 (Waiting example_chunk) 1"
    using s1(2) by (simp add: run_def)
  show "heart_rate_history (run 0 [Toggle Opened 0, Tick (Waiting example_chunk) 1]) = [166]"
    unfolding r up by (simp add: accept_rate_def deque_append_def s1 Let_def)
  show "hr_label (run 0 [Toggle Opened 0, Tick (Waiting example_chunk) 1]) = BPM 166"
    unfolding r up by (simp add: accept_rate_def deque_append_def s1 Let_def py_trunc_def)
  show "data_buffer (run 0 [Toggle Opened 0, Tick (Waiting example_chunk) 1]) = example_beats"
    unfolding r up by (simp add: accept_rate_def Let_def)
qed

text \<open>
  C10. After every run of the application (connection attempts with any outcome, ticks with
  any input at any time) each rate in the history lies between 40 and 200, the history
  holds at most five rates, and a rate shown by the label lies between 40 and 200.
  Connecting empties the history.
\<close>

theorem history_within_bounds:
  "(\<forall>v \<in> set (heart_rate_history (run t0 evs)). MIN_HEART_RATE \<le> v \<and> v \<le> MAX_HEART_RATE) \<and>
   length (heart_rate_history (run t0 evs)) \<le> 5 \<and>
   (\<forall>v. hr_label (run t0 evs) = BPM v \<longrightarrow> MIN_HEART_RATE \<le> v \<and> v \<le> MAX_HEART_RATE) \<and>
   (\<not> serial_open s \<longrightarrow>
      heart_rate_history (toggle_connection s Opened now) = [] \<and>
      (\<forall>v \<in> set (heart_rate_history (toggle_connection s Opened now)).
          MIN_HEART_RATE \<le> v \<and> v \<le> MAX_HEART_RATE))"
proof -
  have inv: "hr_inv (run t0 evs)" by (rule hr_inv_run)
  have a: "\<forall>v \<in> set (heart_rate_history (run t0 evs)). MIN_HEART_RATE \<le> v \<and> v \<le> MAX_HEART_RATE"
    using inv by (simp add: hr_inv_def)
  have b: "length (heart_rate_history (run t0 evs)) \<le> 5"
    using inv by (simp add: hr_inv_def)
  have c: "\<forall>v. hr_label (run t0 evs) = BPM v \<longrightarrow> MIN_HEART_RATE \<le> v \<and> v \<le> MAX_HEART_RATE"
    using inv by (auto simp: hr_inv_def)
  have d: "\<not> serial_open s \<longrightarrow>
      heart_rate_history (toggle_connection s Opened now) = [] \<and>
      (\<forall>v \<in> set (heart_rate_history (toggle_connection s Opened now)).
          MIN_HEART_RATE \<le> v \<and> v \<le> MAX_HEART_RATE)"
    by (simp add: toggle_connection_def log_debug_def)
  show ?thesis using a b c d by blast
qed

theorem history_within_bounds_witness:
  "heart_rate_history (run 0 [Toggle Opened 0, Tick (Waiting example_chunk) 1]) = [166] \<and>
   hr_label (run 0 [Toggle Opened 0, Tick (Waiting example_chunk) 1]) = BPM 166 \<and>
   MIN_HEART_RATE \<le> 166 \<and> 166 \<le> MAX_HEART_RATE \<and>
   \<not> serial_open (accept_rate 60 (initial_state 0)) \<and>
   heart_rate_history (accept_rate 60 (initial_state 0)) = [60] \<and>
   heart_rate_history (toggle_connection (accept_rate 60 (initial_state 0)) Opened 5) = []"
proof -
  note t = history_within_bounds[of 0 "[Toggle Opened 0, Tick (Waiting example_chunk) 1]"
             "accept_rate 60 (initial_state 0)" 5]
  have b: "MIN_HEART_RATE \<le> 166 \<and> 166 \<le> MAX_HEART_RATE"
    using t[THEN conjunct1] unfolding example_run(1) by simp
  have o: "\<not> serial_open (accept_rate 60 (initial_state 0))"
    by (simp add: accept_rate_def initial_state_def Let_def)
  have h: "heart_rate_history (accept_rate 60 (initial_state 0)) = [60]"
    by (simp add: accept_rate_def deque_append_def initial_state_def Let_def)
  have c: "heart_rate_history (toggle_connection (accept_rate 60 (initial_state 0)) Opened 5) = []"
    using t[THEN conjunct2, THEN conjunct2, THEN conjunct2] o by blast
  show ?thesis using example_run(1,2) b o h c by simp
qed

end
